theory Spec2Isabelle
  imports Main "HOL-Library.Char_ord" "HOL-Library.List_Lexorder" "HOL-Library.Multiset"
begin

section \<open>The IPAM consistency check of calicoctl (commands/ipam, \<open>ipam check\<close>)\<close>

text \<open>
  A shallow embedding of \<open>Check\<close>, \<open>NewIPAMChecker\<close>, \<open>checkIPAM\<close>, \<open>recordAllocation\<close>,
  \<open>recordInUseIP\<close>, \<open>getNodeIPs\<close>, \<open>getWEPIPs\<close>, \<open>normaliseIP\<close>, \<open>GetAttrString\<close> and
  \<open>formatAttrs\<close>.  Mutation of the checker, of standard output and of the datastore is
  explicit state passing; an error return and a run-time panic are values of \<open>error\<close>;
  every \<open>for\<close> loop is a recursive function over the slice it ranges over.
\<close>

subsection \<open>Data read from the datastore\<close>

text \<open>\<open>model.AllocationAttribute\<close>.  \<open>AttrSecondary\<close> is a Go map; it is given as the list of
  its entries in the order in which \<open>range\<close> happens to yield them.\<close>

record AllocationAttribute =
  AttrPrimary :: "string option"
  AttrSecondary :: "(string \<times> string) list"

text \<open>\<open>model.AllocationBlock\<close>: \<open>Allocations\<close> is \<open>[]*int\<close> (\<open>None\<close> is the nil pointer),
  \<open>CIDR\<close> is kept as the text that \<open>%s\<close> prints.\<close>

record AllocationBlock =
  CIDR :: string
  Affinity :: "string option"
  Allocations :: "int option list"
  Attributes :: "AllocationAttribute list"

text \<open>\<open>apiv3.IPPool\<close>: the fields \<open>Spec.CIDR\<close> and \<open>Spec.Disabled\<close>.\<close>

record IPPool =
  Spec_CIDR :: string
  Spec_Disabled :: bool

text \<open>\<open>apiv3.Node\<close>: \<open>Wireguard\<close> and \<open>BGP\<close> are pointers to sub-structures; \<open>Some a\<close> is a
  non-nil structure whose address field (\<open>InterfaceIPv4Address\<close>, \<open>IPv4IPIPTunnelAddr\<close>) is \<open>a\<close>.\<close>

record Node =
  Name :: string
  IPv4VXLANTunnelAddr :: string
  Wireguard :: "string option"
  BGP :: "string option"

record WorkloadEndpoint =
  Namespace :: string
  WName :: string
  IPNetworks :: "string list"

subsection \<open>The checker's own data\<close>

record allocation =
  Block :: AllocationBlock
  Ordinal :: int

text \<open>The \<open>interface{}\<close> stored in an owner record is a node, a workload endpoint or a block.\<close>

datatype referrer = NodeRef Node | WEPRef WorkloadEndpoint | BlockRef AllocationBlock

record ownerRecord =
  FriendlyName :: string
  Resource :: referrer

text \<open>What \<open>checkIPAM\<close> can end with other than \<open>nil\<close>: the five wrapped errors it returns
  itself, the errors of \<open>getNodeIPs\<close> and \<open>getWEPIPs\<close>, and a run-time panic (an index out of
  range or a nil dereference), which ends the process instead of returning.\<close>

datatype error =
    ListBlocksFailed string
  | LoadPoolsFailed string
  | ParsePoolCIDRFailed string
  | ListNodesFailed string
  | ListWEPsFailed string
  | ParseNodeIPFailed string string string string
  | ParseWEPIPFailed string string string string
  | RuntimePanic

text \<open>One constructor per \<open>fmt.Printf\<close>/\<open>fmt.Println\<close> call site, carrying its arguments;
  \<open>Println\<close> is a line of constant text (the empty line for \<open>fmt.Println()\<close>).  \<open>render\<close>
  gives the text of a line.\<close>

datatype line =
    Println string
  | FoundBlocks nat
  | BlockLine string string
  | RecordAllocs nat
  | PoolLine string
  | FoundPools nat
  | FoundNodeIPs nat
  | FoundWorkloadIPs nat
  | UsingIPs nat
  | FoundLeaked nat
  | FoundNonCalico nat
  | FoundMissing nat
  | CheckComplete nat
  | AllocatedLine string string
  | BelongsToLine string string
  | LeakedLine string string
  | MultipleOwnersLine string
  | NotInPoolLine string string
  | NoAllocationLine string string

text \<open>\<open>%d\<close> on a non-negative number.\<close>

fun showd :: "nat \<Rightarrow> string" where
  "showd n = (if n < 10 then [''0123456789'' ! n]
              else showd (n div 10) @ [''0123456789'' ! (n mod 10)])"

declare showd.simps [simp del]

fun render :: "line \<Rightarrow> string" where
  "render (Println s) = s"
| "render (FoundBlocks n) = ''Found '' @ showd n @ '' IPAM blocks.''"
| "render (BlockLine cidr affinity) = '' IPAM block '' @ cidr @ '' affinity='' @ affinity @ '':''"
| "render (RecordAllocs n) = ''IPAM blocks record '' @ showd n @ '' allocations.''"
| "render (PoolLine cidr) = ''  '' @ cidr"
| "render (FoundPools n) = ''Found '' @ showd n @ '' active IP pools.''"
| "render (FoundNodeIPs n) = ''Found '' @ showd n @ '' node tunnel IPs.''"
| "render (FoundWorkloadIPs n) = ''Found '' @ showd n @ '' workload IPs.''"
| "render (UsingIPs n) = ''Workloads and nodes are using '' @ showd n @ '' IPs.''"
| "render (FoundLeaked n) =
     ''Found '' @ showd n @ '' IPs that are allocated in IPAM but not actually in use.''"
| "render (FoundNonCalico n) =
     ''Found '' @ showd n @ '' in-use IPs that are not in active IP pools.''"
| "render (FoundMissing n) =
     ''Found '' @ showd n @
     '' in-use IPs that are in active IP pools but have no corresponding IPAM allocation.''"
| "render (CheckComplete n) = ''Check complete; found '' @ showd n @ '' problems.''"
| "render (AllocatedLine ip attrs) = ''  '' @ ip @ '' allocated; attrs '' @ attrs"
| "render (BelongsToLine ip name) = ''  '' @ ip @ '' belongs to '' @ name"
| "render (LeakedLine ip attrs) = ''  '' @ ip @ '' leaked; attrs '' @ attrs"
| "render (MultipleOwnersLine ip) = ''  '' @ ip @ '' has multiple owners.''"
| "render (NotInPoolLine ip name) =
     ''  '' @ ip @ '' in use by '' @ name @ '' is not in any active IP pool.''"
| "render (NoAllocationLine ip name) =
     ''  '' @ ip @ '' in use by '' @ name @
     '' and in active IPAM pool but has no IPAM allocation.''"

text \<open>The \<open>IPAMChecker\<close> structure.  Its three client handles are represented by the
  datastore they give access to; \<open>stdout\<close> is the text printed so far.  The field
  \<open>allocationsByNode\<close> is never read or written by the check and is left out.\<close>

record 'ds IPAMChecker =
  allocations :: "string \<rightharpoonup> allocation list"
  inUseIPs :: "string \<rightharpoonup> ownerRecord list"
  showAllIPs :: bool
  showProblemIPs :: bool
  datastore :: 'ds
  stdout :: "line list"

text \<open>The final values of the local variables of \<open>checkIPAM\<close>, which the Go function
  only prints.\<close>

record 'n report =
  activeIPPools :: "'n list"
  allocatedButNotInUseIPs :: "string list"
  nonCalicoIPs :: "string list"
  inUseButNotAllocatedIPs :: "string list"
  numProblems :: nat

subsection \<open>What the check uses of libcalico-go and of the \<open>net\<close> package\<close>

text \<open>The library functions are parameters.  \<open>'ip\<close> is a parsed address (\<open>nil\<close> included),
  \<open>'n\<close> a parsed network.  A parse error is its message.  \<open>OrdinalToIP\<close> is
  \<open>b.OrdinalToIP(ord)\<close>, \<open>IP_String\<close> is \<open>ip.String()\<close>, \<open>ParseCIDROrIP\<close> and \<open>ParseCIDR\<close> give
  the address and the network that \<open>cnet.ParseCIDROrIP\<close> and \<open>cnet.ParseCIDR\<close> return,
  \<open>ParseIP\<close> is \<open>net.ParseIP\<close>, \<open>Contains\<close> is \<open>cidr.Contains\<close>, and
  \<open>WindowsReservedHandle\<close> is the constant \<open>ipam.WindowsReservedHandle\<close>.\<close>

record ('ip, 'n) libcalico =
  OrdinalToIP :: "AllocationBlock \<Rightarrow> int \<Rightarrow> 'ip"
  IP_String :: "'ip \<Rightarrow> string"
  ParseCIDROrIP :: "string \<Rightarrow> string + 'ip"
  ParseCIDR :: "string \<Rightarrow> string + 'n"
  ParseIP :: "string \<Rightarrow> 'ip"
  Contains :: "'n \<Rightarrow> 'ip \<Rightarrow> bool"
  WindowsReservedHandle :: string

text \<open>The four listing calls.  Each is a function of the datastore that returns the
  listing (or the error's text) and the datastore after the call.\<close>

record 'ds client =
  BackendListBlocks :: "'ds \<Rightarrow> (string + AllocationBlock list) \<times> 'ds"
  IPPoolsList :: "'ds \<Rightarrow> (string + IPPool list) \<times> 'ds"
  NodesList :: "'ds \<Rightarrow> (string + Node list) \<times> 'ds"
  WorkloadEndpointsList :: "'ds \<Rightarrow> (string + WorkloadEndpoint list) \<times> 'ds"

subsection \<open>Helpers of the Go run time\<close>

text \<open>\<open>xs[i]\<close> on a slice: \<open>None\<close> is the index-out-of-range panic.\<close>

definition index :: "'a list \<Rightarrow> int \<Rightarrow> 'a option" where
  "index xs i = (if 0 \<le> i \<and> i < int (length xs) then Some (xs ! nat i) else None)"

text \<open>\<open>for i, x := range xs\<close> on a slice.\<close>

definition enumerate_slice :: "'a list \<Rightarrow> (int \<times> 'a) list" where
  "enumerate_slice xs = zip (map int [0..<length xs]) xs"

text \<open>\<open>strings.Join\<close>.\<close>

fun Join :: "string list \<Rightarrow> string \<Rightarrow> string" where
  "Join [] sep = []"
| "Join [x] sep = x"
| "Join (x # y # ys) sep = x @ sep @ Join (y # ys) sep"

text \<open>Printing one more line.\<close>

definition emit :: "line \<Rightarrow> 'ds IPAMChecker \<Rightarrow> 'ds IPAMChecker" where
  "emit l c = c\<lparr>stdout := stdout c @ [l]\<rparr>"

text \<open>\<open>m[k]\<close> on a map of slices: the nil slice when the key is absent.\<close>

definition lookup_slice :: "(string \<rightharpoonup> 'a list) \<Rightarrow> string \<Rightarrow> 'a list" where
  "lookup_slice m k = (case m k of None \<Rightarrow> [] | Some xs \<Rightarrow> xs)"

text \<open>\<open>for k := range m\<close> on a map yields every key once, in an order the run time
  chooses.  The order of each such loop is a parameter \<open>ks\<close>; it is a possible order of
  the map \<open>m\<close> when \<open>range_order m ks\<close>.\<close>

definition range_order :: "(string \<rightharpoonup> 'a) \<Rightarrow> string list \<Rightarrow> bool" where
  "range_order m ks \<longleftrightarrow> distinct ks \<and> set ks = dom m"

subsection \<open>Attribute strings\<close>

definition formatAttrs :: "AllocationAttribute \<Rightarrow> string" where
  "formatAttrs attribute =
     (let primary = (case AttrPrimary attribute of None \<Rightarrow> ''<none>'' | Some p \<Rightarrow> p);
          keys = sort (map fst (AttrSecondary attribute));
          kvs = map (\<lambda>k. k @ ''='' @
                      (case map_of (AttrSecondary attribute) k of None \<Rightarrow> '''' | Some v \<Rightarrow> v)) keys
      in ''Main:'' @ primary @ '' Extra:'' @ Join kvs '','')"

definition GetAttrString :: "allocation \<Rightarrow> error + string" where
  "GetAttrString a =
     (case index (Allocations (Block a)) (Ordinal a) of
        None \<Rightarrow> Inl RuntimePanic
      | Some None \<Rightarrow> Inl RuntimePanic
      | Some (Some attrIdx) \<Rightarrow>
          if int (length (Attributes (Block a))) > attrIdx
          then (case index (Attributes (Block a)) attrIdx of
                  None \<Rightarrow> Inl RuntimePanic
                | Some attribute \<Rightarrow> Inr (formatAttrs attribute))
          else Inr ''<missing>'')"

subsection \<open>Recording allocations and addresses in use\<close>

definition recordInUseIP ::
  "string \<Rightarrow> referrer \<Rightarrow> string \<Rightarrow> 'ds IPAMChecker \<Rightarrow> 'ds IPAMChecker" where
  "recordInUseIP ip ref friendlyName c =
     (let c1 = (if showAllIPs c then emit (BelongsToLine ip friendlyName) c else c)
      in c1\<lparr>inUseIPs := (inUseIPs c1)(ip \<mapsto>
              lookup_slice (inUseIPs c1) ip @ [\<lparr>FriendlyName = friendlyName, Resource = ref\<rparr>])\<rparr>)"

definition recordAllocation ::
  "('ip, 'n) libcalico \<Rightarrow> AllocationBlock \<Rightarrow> int \<Rightarrow> 'ds IPAMChecker
     \<Rightarrow> error option \<times> 'ds IPAMChecker" where
  "recordAllocation L b ord c =
     (let ip = IP_String L (OrdinalToIP L b ord);
          alloc = \<lparr>Block = b, Ordinal = ord\<rparr>;
          c1 = c\<lparr>allocations := (allocations c)(ip \<mapsto> lookup_slice (allocations c) ip @ [alloc])\<rparr>
      in case (if showAllIPs c1
               then (case GetAttrString alloc of
                       Inl e \<Rightarrow> (Some e, c1)
                     | Inr attrs \<Rightarrow> (None, emit (AllocatedLine ip attrs) c1))
               else (None, c1)) of
           (Some e, c2) \<Rightarrow> (Some e, c2)
         | (None, c2) \<Rightarrow>
             (case index (Allocations b) ord of
                None \<Rightarrow> (Some RuntimePanic, c2)
              | Some None \<Rightarrow> (Some RuntimePanic, c2)
              | Some (Some attrIdx) \<Rightarrow>
                  if int (length (Attributes b)) > attrIdx
                  then (case index (Attributes b) attrIdx of
                          None \<Rightarrow> (Some RuntimePanic, c2)
                        | Some attrs \<Rightarrow>
                            if AttrPrimary attrs \<noteq> None
                               \<and> the (AttrPrimary attrs) = WindowsReservedHandle L
                            then (None, recordInUseIP ip (BlockRef b) ''Reserved for Windows'' c2)
                            else (None, c2))
                  else (None, c2)))"

subsection \<open>Addresses of nodes and workload endpoints\<close>

definition normaliseIP :: "('ip, 'n) libcalico \<Rightarrow> string \<Rightarrow> string + string" where
  "normaliseIP L addr =
     (case ParseCIDROrIP L addr of Inl err \<Rightarrow> Inl err | Inr ip \<Rightarrow> Inr (IP_String L ip))"

fun getWEPIPs_loop ::
  "('ip, 'n) libcalico \<Rightarrow> WorkloadEndpoint \<Rightarrow> string list \<Rightarrow> string list \<Rightarrow> error + string list" where
  "getWEPIPs_loop L w [] ips = Inr ips"
| "getWEPIPs_loop L w (a # as) ips =
     (case normaliseIP L a of
        Inl err \<Rightarrow> Inl (ParseWEPIPFailed a (Namespace w) (WName w) err)
      | Inr ip \<Rightarrow> getWEPIPs_loop L w as (ips @ [ip]))"

definition getWEPIPs :: "('ip, 'n) libcalico \<Rightarrow> WorkloadEndpoint \<Rightarrow> error + string list" where
  "getWEPIPs L w = getWEPIPs_loop L w (IPNetworks w) []"

definition getNodeIPs :: "('ip, 'n) libcalico \<Rightarrow> Node \<Rightarrow> error + string list" where
  "getNodeIPs L n =
     (case (if IPv4VXLANTunnelAddr n \<noteq> ''''
            then (case normaliseIP L (IPv4VXLANTunnelAddr n) of
                    Inl err \<Rightarrow> Inl (ParseNodeIPFailed ''IPv4VXLANTunnelAddr''
                                      (IPv4VXLANTunnelAddr n) (Name n) err)
                  | Inr ip \<Rightarrow> Inr [ip])
            else Inr []) of
        Inl e \<Rightarrow> Inl e
      | Inr ips1 \<Rightarrow>
     (case (if Wireguard n \<noteq> None \<and> the (Wireguard n) \<noteq> ''''
            then (case normaliseIP L (the (Wireguard n)) of
                    Inl err \<Rightarrow> Inl (ParseNodeIPFailed ''Wireguard.InterfaceIPv4Address''
                                      (the (Wireguard n)) (Name n) err)
                  | Inr ip \<Rightarrow> Inr (ips1 @ [ip]))
            else Inr ips1) of
        Inl e \<Rightarrow> Inl e
      | Inr ips2 \<Rightarrow>
          (if BGP n \<noteq> None \<and> the (BGP n) \<noteq> ''''
           then (case normaliseIP L (the (BGP n)) of
                   Inl err \<Rightarrow> Inl (ParseNodeIPFailed ''IPv4IPIPTunnelAddr''
                                     (the (BGP n)) (Name n) err)
                 | Inr ip \<Rightarrow> Inr (ips2 @ [ip]))
           else Inr ips2)))"

subsection \<open>The phases of \<open>checkIPAM\<close>\<close>

text \<open>Phase 1, inner loop: \<open>for ord, attrIdx := range b.Allocations\<close>.\<close>

fun allocationsLoop ::
  "('ip, 'n) libcalico \<Rightarrow> AllocationBlock \<Rightarrow> (int \<times> int option) list \<Rightarrow> 'ds IPAMChecker
     \<Rightarrow> error option \<times> 'ds IPAMChecker" where
  "allocationsLoop L b [] c = (None, c)"
| "allocationsLoop L b ((ord, attrIdx) # rest) c =
     (if attrIdx = None then allocationsLoop L b rest c
      else (case recordAllocation L b ord c of
              (Some e, c') \<Rightarrow> (Some e, c')
            | (None, c') \<Rightarrow> allocationsLoop L b rest c'))"

text \<open>Phase 1, outer loop: \<open>for _, kvp := range blocks.KVPairs\<close>.\<close>

fun blocksLoop ::
  "('ip, 'n) libcalico \<Rightarrow> AllocationBlock list \<Rightarrow> 'ds IPAMChecker
     \<Rightarrow> error option \<times> 'ds IPAMChecker" where
  "blocksLoop L [] c = (None, c)"
| "blocksLoop L (b # bs) c =
     (let affinity = (case Affinity b of None \<Rightarrow> ''<none>'' | Some a \<Rightarrow> a);
          c1 = emit (BlockLine (CIDR b) affinity) c
      in case allocationsLoop L b (enumerate_slice (Allocations b)) c1 of
           (Some e, c2) \<Rightarrow> (Some e, c2)
         | (None, c2) \<Rightarrow> blocksLoop L bs c2)"

definition loadBlocks ::
  "('ip, 'n) libcalico \<Rightarrow> 'ds client \<Rightarrow> 'ds IPAMChecker \<Rightarrow> error option \<times> 'ds IPAMChecker" where
  "loadBlocks L cl c =
     (let c1 = emit (Println ''Loading all IPAM blocks...'') c;
          (blocks, ds) = BackendListBlocks cl (datastore c1);
          c2 = c1\<lparr>datastore := ds\<rparr>
      in case blocks of
           Inl err \<Rightarrow> (Some (ListBlocksFailed err), c2)
         | Inr kvps \<Rightarrow>
             (case blocksLoop L kvps (emit (FoundBlocks (length kvps)) c2) of
                (Some e, c3) \<Rightarrow> (Some e, c3)
              | (None, c3) \<Rightarrow>
                  (None, emit (Println [])
                           (emit (RecordAllocs (card (dom (allocations c3)))) c3))))"

text \<open>Phase 2: \<open>for _, p := range ipPools.Items\<close>, building \<open>activeIPPools\<close>.\<close>

fun poolsLoop ::
  "('ip, 'n) libcalico \<Rightarrow> IPPool list \<Rightarrow> 'n list \<Rightarrow> 'ds IPAMChecker
     \<Rightarrow> (error + 'n list) \<times> 'ds IPAMChecker" where
  "poolsLoop L [] active c = (Inr active, c)"
| "poolsLoop L (p # ps) active c =
     (if Spec_Disabled p then poolsLoop L ps active c
      else (let c1 = emit (PoolLine (Spec_CIDR p)) c
            in case ParseCIDR L (Spec_CIDR p) of
                 Inl err \<Rightarrow> (Inl (ParsePoolCIDRFailed err), c1)
               | Inr cidr \<Rightarrow> poolsLoop L ps (active @ [cidr]) c1))"

definition loadPools ::
  "('ip, 'n) libcalico \<Rightarrow> 'ds client \<Rightarrow> 'ds IPAMChecker
     \<Rightarrow> (error + 'n list) \<times> 'ds IPAMChecker" where
  "loadPools L cl c =
     (let c1 = emit (Println ''Loading all IPAM pools...'') c;
          (ipPools, ds) = IPPoolsList cl (datastore c1);
          c2 = c1\<lparr>datastore := ds\<rparr>
      in case ipPools of
           Inl err \<Rightarrow> (Inl (LoadPoolsFailed err), c2)
         | Inr items \<Rightarrow>
             (case poolsLoop L items [] c2 of
                (Inl e, c3) \<Rightarrow> (Inl e, c3)
              | (Inr active, c3) \<Rightarrow>
                  (Inr active, emit (Println []) (emit (FoundPools (length active)) c3))))"

text \<open>Phases 3 and 4, inner loop: \<open>for _, ip := range ips\<close> registers every address.\<close>

fun recordInUseIPs ::
  "string list \<Rightarrow> referrer \<Rightarrow> string \<Rightarrow> 'ds IPAMChecker \<Rightarrow> 'ds IPAMChecker" where
  "recordInUseIPs [] ref friendlyName c = c"
| "recordInUseIPs (ip # ips) ref friendlyName c =
     recordInUseIPs ips ref friendlyName (recordInUseIP ip ref friendlyName c)"

fun nodesLoop ::
  "('ip, 'n) libcalico \<Rightarrow> Node list \<Rightarrow> nat \<Rightarrow> 'ds IPAMChecker
     \<Rightarrow> (error + nat) \<times> 'ds IPAMChecker" where
  "nodesLoop L [] numNodeIPs c = (Inr numNodeIPs, c)"
| "nodesLoop L (n # ns) numNodeIPs c =
     (case getNodeIPs L n of
        Inl err \<Rightarrow> (Inl err, c)
      | Inr ips \<Rightarrow>
          nodesLoop L ns (numNodeIPs + length ips)
            (recordInUseIPs ips (NodeRef n) (''Node('' @ Name n @ '')'') c))"

definition loadNodes ::
  "('ip, 'n) libcalico \<Rightarrow> 'ds client \<Rightarrow> 'ds IPAMChecker \<Rightarrow> error option \<times> 'ds IPAMChecker" where
  "loadNodes L cl c =
     (let c1 = emit (Println ''Loading all nodes.'') c;
          (nodes, ds) = NodesList cl (datastore c1);
          c2 = c1\<lparr>datastore := ds\<rparr>
      in case nodes of
           Inl err \<Rightarrow> (Some (ListNodesFailed err), c2)
         | Inr items \<Rightarrow>
             (case nodesLoop L items 0 c2 of
                (Inl e, c3) \<Rightarrow> (Some e, c3)
              | (Inr numNodeIPs, c3) \<Rightarrow>
                  (None, emit (Println []) (emit (FoundNodeIPs numNodeIPs) c3))))"

fun wepsLoop ::
  "('ip, 'n) libcalico \<Rightarrow> WorkloadEndpoint list \<Rightarrow> nat \<Rightarrow> 'ds IPAMChecker
     \<Rightarrow> (error + nat) \<times> 'ds IPAMChecker" where
  "wepsLoop L [] numNodeIPs c = (Inr numNodeIPs, c)"
| "wepsLoop L (w # ws) numNodeIPs c =
     (case getWEPIPs L w of
        Inl err \<Rightarrow> (Inl err, c)
      | Inr ips \<Rightarrow>
          wepsLoop L ws (numNodeIPs + length ips)
            (recordInUseIPs ips (WEPRef w)
               (''Workload('' @ Namespace w @ ''/'' @ WName w @ '')'') c))"

definition loadWEPs ::
  "('ip, 'n) libcalico \<Rightarrow> 'ds client \<Rightarrow> 'ds IPAMChecker \<Rightarrow> error option \<times> 'ds IPAMChecker" where
  "loadWEPs L cl c =
     (let c1 = emit (Println ''Loading all workload endpoints.'') c;
          (weps, ds) = WorkloadEndpointsList cl (datastore c1);
          c2 = c1\<lparr>datastore := ds\<rparr>
      in case weps of
           Inl err \<Rightarrow> (Some (ListWEPsFailed err), c2)
         | Inr items \<Rightarrow>
             (case wepsLoop L items 0 c2 of
                (Inl e, c3) \<Rightarrow> (Some e, c3)
              | (Inr numNodeIPs, c3) \<Rightarrow>
                  (None, emit (Println [])
                           (emit (UsingIPs (card (dom (inUseIPs c3))))
                              (emit (FoundWorkloadIPs numNodeIPs) c3)))))"

text \<open>Phase 5, first scan.  \<open>printLeaked\<close> is \<open>for _, alloc := range allocs\<close>;
  \<open>leakedLoop\<close> is \<open>for ip, allocs := range c.allocations\<close>, visiting the keys in the
  order \<open>ks\<close>.\<close>

fun printLeaked ::
  "string \<Rightarrow> allocation list \<Rightarrow> 'ds IPAMChecker \<Rightarrow> error option \<times> 'ds IPAMChecker" where
  "printLeaked ip [] c = (None, c)"
| "printLeaked ip (alloc # allocs) c =
     (case GetAttrString alloc of
        Inl e \<Rightarrow> (Some e, c)
      | Inr attrs \<Rightarrow> printLeaked ip allocs (emit (LeakedLine ip attrs) c))"

fun leakedLoop ::
  "string list \<Rightarrow> string list \<Rightarrow> 'ds IPAMChecker \<Rightarrow> (error + string list) \<times> 'ds IPAMChecker" where
  "leakedLoop [] acc c = (Inr acc, c)"
| "leakedLoop (ip # ks) acc c =
     (if inUseIPs c ip = None
      then (case (if showProblemIPs c then printLeaked ip (lookup_slice (allocations c) ip) c
                  else (None, c)) of
              (Some e, c') \<Rightarrow> (Inl e, c')
            | (None, c') \<Rightarrow> leakedLoop ks (acc @ [ip]) c')
      else leakedLoop ks acc c)"

text \<open>Phase 5, second scan.  \<open>printOwners\<close> is \<open>for _, owner := range owners\<close> with the
  line of the branch it stands in; \<open>inUseLoop\<close> is \<open>for ip, owners := range c.inUseIPs\<close>.\<close>

fun printOwners ::
  "(string \<Rightarrow> line) \<Rightarrow> ownerRecord list \<Rightarrow> 'ds IPAMChecker \<Rightarrow> 'ds IPAMChecker" where
  "printOwners mk [] c = c"
| "printOwners mk (owner # owners) c = printOwners mk owners (emit (mk (FriendlyName owner)) c)"

fun inUseLoop ::
  "('ip, 'n) libcalico \<Rightarrow> 'n list \<Rightarrow> string list \<Rightarrow> string list \<Rightarrow> string list
     \<Rightarrow> 'ds IPAMChecker \<Rightarrow> (string list \<times> string list) \<times> 'ds IPAMChecker" where
  "inUseLoop L pools [] nonCalico missing c = ((nonCalico, missing), c)"
| "inUseLoop L pools (ip # ks) nonCalico missing c =
     (let owners = lookup_slice (inUseIPs c) ip;
          c1 = (if showProblemIPs c \<and> length owners > 1 then emit (MultipleOwnersLine ip) c else c)
      in if allocations c1 ip = None
         then (let parsedIP = ParseIP L ip;
                   found = list_ex (\<lambda>cidr. Contains L cidr parsedIP) pools
               in if \<not> found
                  then inUseLoop L pools ks (nonCalico @ [ip]) missing
                         (if showProblemIPs c1 then printOwners (NotInPoolLine ip) owners c1 else c1)
                  else inUseLoop L pools ks nonCalico (missing @ [ip])
                         (if showProblemIPs c1 then printOwners (NoAllocationLine ip) owners c1
                          else c1))
         else inUseLoop L pools ks nonCalico missing c1)"

subsection \<open>\<open>checkIPAM\<close>, \<open>NewIPAMChecker\<close> and \<open>Check\<close>\<close>

text \<open>\<open>load\<close> is the first half of \<open>checkIPAM\<close>: the two opening lines (\<open>banner\<close>) and
  phases 1 to 4 (the four blocks that fill the checker); \<open>classify\<close> is the second half,
  phases 5 and 6.  \<open>ks1\<close> and \<open>ks2\<close> are the orders in which the two \<open>range\<close> loops over
  \<open>c.allocations\<close> and \<open>c.inUseIPs\<close> visit the keys.  \<open>checkIPAM\<close> gives \<open>Inr\<close> of the
  report when the Go function returns \<open>nil\<close>, and \<open>Inl\<close> of the error otherwise; in both
  cases it gives the checker as the run leaves it.\<close>

definition banner :: "'ds IPAMChecker \<Rightarrow> 'ds IPAMChecker" where
  "banner c = emit (Println []) (emit (Println ''Checking IPAM for inconsistencies...'') c)"

definition load ::
  "('ip, 'n) libcalico \<Rightarrow> 'ds client \<Rightarrow> 'ds IPAMChecker
     \<Rightarrow> (error + 'n list) \<times> 'ds IPAMChecker" where
  "load L cl c =
     (case loadBlocks L cl (banner c) of
        (Some e, c1) \<Rightarrow> (Inl e, c1)
      | (None, c1) \<Rightarrow>
     (case loadPools L cl c1 of
        (Inl e, c2) \<Rightarrow> (Inl e, c2)
      | (Inr pools, c2) \<Rightarrow>
     (case loadNodes L cl c2 of
        (Some e, c3) \<Rightarrow> (Inl e, c3)
      | (None, c3) \<Rightarrow>
     (case loadWEPs L cl c3 of
        (Some e, c4) \<Rightarrow> (Inl e, c4)
      | (None, c4) \<Rightarrow> (Inr pools, c4)))))"

definition classify ::
  "('ip, 'n) libcalico \<Rightarrow> string list \<Rightarrow> string list \<Rightarrow> 'n list \<Rightarrow> 'ds IPAMChecker
     \<Rightarrow> (error + 'n report) \<times> 'ds IPAMChecker" where
  "classify L ks1 ks2 pools c =
     (let c1 = emit (Println
                 ''Scanning for IPs that are allocated but not actually in use...'') c
      in case leakedLoop ks1 [] c1 of
           (Inl e, c2) \<Rightarrow> (Inl e, c2)
         | (Inr leaked, c2) \<Rightarrow>
             (let n1 = 0 + length leaked;
                  c3 = emit (FoundLeaked (length leaked)) c2;
                  c4 = emit (Println (''Scanning for IPs that are in use by a workload or node ''
                                        @ ''but not allocated in IPAM...'')) c3;
                  ((nonCalico, missing), c5) = inUseLoop L pools ks2 [] [] c4;
                  n2 = n1 + length nonCalico;
                  n3 = n2 + length missing;
                  c6 = emit (Println [])
                         (emit (FoundMissing (length missing))
                            (emit (FoundNonCalico (length nonCalico)) c5));
                  c7 = emit (CheckComplete n3) c6
              in (Inr \<lparr>activeIPPools = pools, allocatedButNotInUseIPs = leaked,
                        nonCalicoIPs = nonCalico, inUseButNotAllocatedIPs = missing,
                        numProblems = n3\<rparr>, c7)))"

definition checkIPAM ::
  "('ip, 'n) libcalico \<Rightarrow> 'ds client \<Rightarrow> string list \<Rightarrow> string list \<Rightarrow> 'ds IPAMChecker
     \<Rightarrow> (error + 'n report) \<times> 'ds IPAMChecker" where
  "checkIPAM L cl ks1 ks2 c =
     (case load L cl c of
        (Inl e, c1) \<Rightarrow> (Inl e, c1)
      | (Inr pools, c1) \<Rightarrow> classify L ks1 ks2 pools c1)"

definition NewIPAMChecker :: "'ds \<Rightarrow> bool \<Rightarrow> bool \<Rightarrow> 'ds IPAMChecker" where
  "NewIPAMChecker ds showAll showProblem =
     \<lparr>allocations = Map.empty, inUseIPs = Map.empty,
      showAllIPs = showAll, showProblemIPs = showProblem,
      datastore = ds, stdout = []\<rparr>"

text \<open>\<open>Check\<close> after the arguments are parsed and the clients exist: \<open>show_all_ips\<close> and
  \<open>show_problem_ips\<close> are the values of \<open>--show-all-ips\<close> and \<open>--show-problem-ips\<close>.\<close>

definition Check ::
  "('ip, 'n) libcalico \<Rightarrow> 'ds client \<Rightarrow> string list \<Rightarrow> string list \<Rightarrow> 'ds \<Rightarrow> bool \<Rightarrow> bool
     \<Rightarrow> (error + 'n report) \<times> 'ds IPAMChecker" where
  "Check L cl ks1 ks2 ds show_all_ips show_problem_ips =
     (let showAll = show_all_ips;
          showProblem = (showAll \<or> show_problem_ips);
          checker = NewIPAMChecker ds showAll showProblem
      in checkIPAM L cl ks1 ks2 checker)"

section \<open>Notions used in the statements and proofs\<close>

subsection \<open>Classes of printed lines\<close>

text \<open>The per-address lines printed under \<open>showAllIPs\<close>, the per-address lines printed
  under \<open>showProblemIPs\<close>, and the lines that carry the counts of the classification.\<close>

fun all_ip_line :: "line \<Rightarrow> bool" where
  "all_ip_line (AllocatedLine ip attrs) = True"
| "all_ip_line (BelongsToLine ip name) = True"
| "all_ip_line l = False"

fun problem_line :: "line \<Rightarrow> bool" where
  "problem_line (LeakedLine ip attrs) = True"
| "problem_line (MultipleOwnersLine ip) = True"
| "problem_line (NotInPoolLine ip name) = True"
| "problem_line (NoAllocationLine ip name) = True"
| "problem_line l = False"

fun summary_line :: "line \<Rightarrow> bool" where
  "summary_line (FoundLeaked n) = True"
| "summary_line (FoundNonCalico n) = True"
| "summary_line (FoundMissing n) = True"
| "summary_line (CheckComplete n) = True"
| "summary_line l = False"

text \<open>What the first half of the check may print, and what the second half may.\<close>

definition load_line :: "bool \<Rightarrow> line \<Rightarrow> bool" where
  "load_line showAll l \<longleftrightarrow> \<not> problem_line l \<and> \<not> summary_line l \<and> (all_ip_line l \<longrightarrow> showAll)"

definition classify_line :: "bool \<Rightarrow> line \<Rightarrow> bool" where
  "classify_line showProblem l \<longleftrightarrow> \<not> all_ip_line l \<and> (problem_line l \<longrightarrow> showProblem)"

subsection \<open>Relations between states of the checker\<close>

text \<open>\<open>grows Q c c'\<close>: \<open>c'\<close> is a later state of \<open>c\<close>.  The flags are the same, no key and no
  owner has been removed, and the lines printed in between all satisfy \<open>Q\<close>.\<close>

definition grows :: "(line \<Rightarrow> bool) \<Rightarrow> 'ds IPAMChecker \<Rightarrow> 'ds IPAMChecker \<Rightarrow> bool" where
  "grows Q c c' \<longleftrightarrow>
     showAllIPs c' = showAllIPs c \<and> showProblemIPs c' = showProblemIPs c \<and>
     dom (allocations c) \<subseteq> dom (allocations c') \<and>
     dom (inUseIPs c) \<subseteq> dom (inUseIPs c') \<and>
     (\<forall>ip. set (lookup_slice (inUseIPs c) ip) \<subseteq> set (lookup_slice (inUseIPs c') ip)) \<and>
     (\<exists>out. stdout c' = stdout c @ out \<and> list_all Q out)"

text \<open>\<open>prints Q c c'\<close>: \<open>c'\<close> is \<open>c\<close> with more lines printed, all satisfying \<open>Q\<close>.\<close>

definition prints :: "(line \<Rightarrow> bool) \<Rightarrow> 'ds IPAMChecker \<Rightarrow> 'ds IPAMChecker \<Rightarrow> bool" where
  "prints Q c c' \<longleftrightarrow> (\<exists>out. c' = c\<lparr>stdout := stdout c @ out\<rparr> \<and> list_all Q out)"

text \<open>Every recorded allocation has an attribute string: \<open>GetAttrString\<close> does not panic
  on it.\<close>

definition allocs_ok :: "'ds IPAMChecker \<Rightarrow> bool" where
  "allocs_ok c \<longleftrightarrow> (\<forall>ip. \<forall>a \<in> set (lookup_slice (allocations c) ip). \<not> isl (GetAttrString a))"

subsection \<open>Conditions on the input\<close>

text \<open>No attribute index of the block is negative.\<close>

definition block_indices_ok :: "AllocationBlock \<Rightarrow> bool" where
  "block_indices_ok b \<longleftrightarrow> (\<forall>i. Some i \<in> set (Allocations b) \<longrightarrow> 0 \<le> i)"

text \<open>The address fields of a node that are set, each with the name \<open>getNodeIPs\<close> gives
  it in its error, in the order in which \<open>getNodeIPs\<close> looks at them; and the
  normalisation of such a list, stopping at the first failure.  \<open>getNodeIPs\<close> is
  \<open>normalise_fields\<close> on \<open>node_fields\<close> (lemma \<open>getNodeIPs_fields\<close>).\<close>

definition node_fields :: "Node \<Rightarrow> (string \<times> string) list" where
  "node_fields n =
     (if IPv4VXLANTunnelAddr n \<noteq> '''' then [(''IPv4VXLANTunnelAddr'', IPv4VXLANTunnelAddr n)]
      else []) @
     (case Wireguard n of
        None \<Rightarrow> []
      | Some a \<Rightarrow> if a \<noteq> '''' then [(''Wireguard.InterfaceIPv4Address'', a)] else []) @
     (case BGP n of
        None \<Rightarrow> []
      | Some a \<Rightarrow> if a \<noteq> '''' then [(''IPv4IPIPTunnelAddr'', a)] else [])"

fun normalise_fields ::
  "('ip, 'n) libcalico \<Rightarrow> string \<Rightarrow> (string \<times> string) list \<Rightarrow> string list
     \<Rightarrow> error + string list" where
  "normalise_fields L name [] ips = Inr ips"
| "normalise_fields L name ((field, raw) # fs) ips =
     (case normaliseIP L raw of
        Inl err \<Rightarrow> Inl (ParseNodeIPFailed field raw name err)
      | Inr ip \<Rightarrow> normalise_fields L name fs (ips @ [ip]))"

text \<open>The four listing calls leave the datastore as it is.\<close>

definition read_only :: "'ds client \<Rightarrow> bool" where
  "read_only cl \<longleftrightarrow>
     (\<forall>ds. snd (BackendListBlocks cl ds) = ds) \<and> (\<forall>ds. snd (IPPoolsList cl ds) = ds) \<and>
     (\<forall>ds. snd (NodesList cl ds) = ds) \<and> (\<forall>ds. snd (WorkloadEndpointsList cl ds) = ds)"

subsection \<open>The second half of the check in closed form\<close>

text \<open>The attribute string of a recorded allocation, the lines the first scan prints for
  a leaked address, the test of the inner loop of the second scan, and the lines the
  second scan prints for an address in use.\<close>

definition attr_string :: "allocation \<Rightarrow> string" where
  "attr_string a = (case GetAttrString a of Inl e \<Rightarrow> [] | Inr s \<Rightarrow> s)"

definition leaked_lines :: "(string \<rightharpoonup> allocation list) \<Rightarrow> string \<Rightarrow> line list" where
  "leaked_lines A ip = map (\<lambda>a. LeakedLine ip (attr_string a)) (lookup_slice A ip)"

definition in_pool :: "('ip, 'n) libcalico \<Rightarrow> 'n list \<Rightarrow> string \<Rightarrow> bool" where
  "in_pool L pools ip \<longleftrightarrow> list_ex (\<lambda>cidr. Contains L cidr (ParseIP L ip)) pools"

definition in_use_lines ::
  "('ip, 'n) libcalico \<Rightarrow> 'n list \<Rightarrow> (string \<rightharpoonup> allocation list)
     \<Rightarrow> (string \<rightharpoonup> ownerRecord list) \<Rightarrow> string \<Rightarrow> line list" where
  "in_use_lines L pools A U ip =
     (if length (lookup_slice U ip) > 1 then [MultipleOwnersLine ip] else []) @
     (if A ip = None
      then map (\<lambda>owner. if in_pool L pools ip then NoAllocationLine ip (FriendlyName owner)
                         else NotInPoolLine ip (FriendlyName owner)) (lookup_slice U ip)
      else [])"

text \<open>The three lists the scans build when they visit the keys in the order \<open>ks\<close>, and
  all the lines the second half prints (lemma \<open>classify_closed\<close>).\<close>

definition leaked_of :: "'ds IPAMChecker \<Rightarrow> string list \<Rightarrow> string list" where
  "leaked_of c ks = filter (\<lambda>ip. inUseIPs c ip = None) ks"

definition foreign_of ::
  "('ip, 'n) libcalico \<Rightarrow> 'n list \<Rightarrow> 'ds IPAMChecker \<Rightarrow> string list \<Rightarrow> string list" where
  "foreign_of L pools c ks = filter (\<lambda>ip. allocations c ip = None \<and> \<not> in_pool L pools ip) ks"

definition missing_of ::
  "('ip, 'n) libcalico \<Rightarrow> 'n list \<Rightarrow> 'ds IPAMChecker \<Rightarrow> string list \<Rightarrow> string list" where
  "missing_of L pools c ks = filter (\<lambda>ip. allocations c ip = None \<and> in_pool L pools ip) ks"

definition classify_lines ::
  "('ip, 'n) libcalico \<Rightarrow> string list \<Rightarrow> string list \<Rightarrow> 'n list \<Rightarrow> 'ds IPAMChecker \<Rightarrow> line list"
  where
  "classify_lines L ks1 ks2 pools c =
     [Println ''Scanning for IPs that are allocated but not actually in use...''] @
     (if showProblemIPs c then concat (map (leaked_lines (allocations c)) (leaked_of c ks1))
      else []) @
     [FoundLeaked (length (leaked_of c ks1)),
      Println (''Scanning for IPs that are in use by a workload or node ''
                 @ ''but not allocated in IPAM...'')] @
     (if showProblemIPs c
      then concat (map (in_use_lines L pools (allocations c) (inUseIPs c)) ks2) else []) @
     [FoundNonCalico (length (foreign_of L pools c ks2)),
      FoundMissing (length (missing_of L pools c ks2)),
      Println [],
      CheckComplete (length (leaked_of c ks1) + length (foreign_of L pools c ks2)
                       + length (missing_of L pools c ks2))]"

subsection \<open>An instance for the examples\<close>

text \<open>The library restricted to IPv4 addresses in dotted decimal: an address is its
  32-bit value (\<open>None\<close> is \<open>nil\<close>), a network is its base address and prefix length.\<close>

definition digit_val :: "char \<Rightarrow> nat option" where
  "digit_val ch = map_of (zip ''0123456789'' [0, 1, 2, 3, 4, 5, 6, 7, 8, 9]) ch"

fun parse_nat :: "string \<Rightarrow> nat \<Rightarrow> nat option" where
  "parse_nat [] acc = Some acc"
| "parse_nat (ch # cs) acc =
     (case digit_val ch of None \<Rightarrow> None | Some d \<Rightarrow> parse_nat cs (10 * acc + d))"

definition parse_dec :: "string \<Rightarrow> nat option" where
  "parse_dec s = (if s = [] then None else parse_nat s 0)"

fun split_on :: "char \<Rightarrow> string \<Rightarrow> string list" where
  "split_on sep [] = [[]]"
| "split_on sep (ch # cs) =
     (if ch = sep then [] # split_on sep cs
      else (case split_on sep cs of [] \<Rightarrow> [[ch]] | x # xs \<Rightarrow> (ch # x) # xs))"

definition parse_ipv4 :: "string \<Rightarrow> nat option" where
  "parse_ipv4 s =
     (case map parse_dec (split_on CHR ''.'' s) of
        [Some a, Some b, Some c, Some d] \<Rightarrow>
          if a < 256 \<and> b < 256 \<and> c < 256 \<and> d < 256
          then Some (((a * 256 + b) * 256 + c) * 256 + d) else None
      | _ \<Rightarrow> None)"

definition ipv4_string :: "nat option \<Rightarrow> string" where
  "ipv4_string ip =
     (case ip of
        None \<Rightarrow> ''<nil>''
      | Some v \<Rightarrow> showd (v div 16777216) @ ''.'' @ showd (v div 65536 mod 256) @ ''.'' @
                  showd (v div 256 mod 256) @ ''.'' @ showd (v mod 256))"

definition parse_cidr :: "string \<Rightarrow> (nat \<times> nat) option" where
  "parse_cidr s =
     (case split_on CHR ''/'' s of
        [a, p] \<Rightarrow> (case (parse_ipv4 a, parse_dec p) of
                     (Some v, Some len) \<Rightarrow> if len \<le> 32 then Some (v, len) else None
                   | _ \<Rightarrow> None)
      | _ \<Rightarrow> None)"

definition ipv4_lib :: "(nat option, nat \<times> nat) libcalico" where
  "ipv4_lib =
     \<lparr>OrdinalToIP = (\<lambda>b ord. case parse_cidr (CIDR b) of
                               None \<Rightarrow> None
                             | Some (v, len) \<Rightarrow> Some (v + nat ord)),
      IP_String = ipv4_string,
      ParseCIDROrIP = (\<lambda>s. case parse_cidr s of
                             Some (v, len) \<Rightarrow> Inr (Some v)
                           | None \<Rightarrow> (case parse_ipv4 s of
                                        Some v \<Rightarrow> Inr (Some v)
                                      | None \<Rightarrow> Inl (''invalid CIDR address: '' @ s))),
      ParseCIDR = (\<lambda>s. case parse_cidr s of
                         Some (v, len) \<Rightarrow> Inr (v div 2 ^ (32 - len) * 2 ^ (32 - len), len)
                       | None \<Rightarrow> Inl (''invalid CIDR address: '' @ s)),
      ParseIP = parse_ipv4,
      Contains = (\<lambda>(base, len) ip. case ip of
                                      None \<Rightarrow> False
                                    | Some v \<Rightarrow> v div 2 ^ (32 - len) = base div 2 ^ (32 - len)),
      WindowsReservedHandle = ''windows-reserved-ipam-handle''\<rparr>"

text \<open>A datastore held in memory, whose four listings succeed and leave it as it is.\<close>

record snapshot =
  ds_blocks :: "AllocationBlock list"
  ds_pools :: "IPPool list"
  ds_nodes :: "Node list"
  ds_weps :: "WorkloadEndpoint list"

definition snapshot_client :: "snapshot client" where
  "snapshot_client =
     \<lparr>BackendListBlocks = (\<lambda>ds. (Inr (ds_blocks ds), ds)),
      IPPoolsList = (\<lambda>ds. (Inr (ds_pools ds), ds)),
      NodesList = (\<lambda>ds. (Inr (ds_nodes ds), ds)),
      WorkloadEndpointsList = (\<lambda>ds. (Inr (ds_weps ds), ds))\<rparr>"

text \<open>A block whose only allocation carries the attribute index \<open>-1\<close>.\<close>

definition negative_index_block :: AllocationBlock where
  "negative_index_block =
     \<lparr>CIDR = ''10.0.0.0/29'', Affinity = None, Allocations = [Some (- 1)], Attributes = []\<rparr>"

text \<open>A cluster with one block, two pools (one of them disabled), one node and one
  workload endpoint.  Ordinal 0 of the block is reserved for Windows, ordinals 1 and 5
  are allocated to pods; the endpoint uses \<open>10.0.0.1\<close> and \<open>192.168.99.9\<close>, the node's
  tunnel uses \<open>10.0.0.9\<close>.\<close>

definition example_block :: AllocationBlock where
  "example_block =
     \<lparr>CIDR = ''10.0.0.0/29'', Affinity = Some ''host:n1'',
      Allocations = [Some 2, Some 0, None, None, None, Some 1],
      Attributes =
        [\<lparr>AttrPrimary = Some ''k8s-pod-network.a'',
          AttrSecondary = [(''pod'', ''a''), (''namespace'', ''ns'')]\<rparr>,
         \<lparr>AttrPrimary = None, AttrSecondary = []\<rparr>,
         \<lparr>AttrPrimary = Some ''windows-reserved-ipam-handle'', AttrSecondary = []\<rparr>]\<rparr>"

definition example_node :: Node where
  "example_node =
     \<lparr>Name = ''n1'', IPv4VXLANTunnelAddr = ''10.0.0.9'', Wireguard = None, BGP = None\<rparr>"

definition example_wep :: WorkloadEndpoint where
  "example_wep =
     \<lparr>Namespace = ''ns'', WName = ''w1'', IPNetworks = [''192.168.99.9/32'', ''10.0.0.1/32'']\<rparr>"

definition example_store :: snapshot where
  "example_store =
     \<lparr>ds_blocks = [example_block],
      ds_pools = [\<lparr>Spec_CIDR = ''10.0.0.0/24'', Spec_Disabled = False\<rparr>,
                  \<lparr>Spec_CIDR = ''192.168.0.0/16'', Spec_Disabled = True\<rparr>],
      ds_nodes = [example_node],
      ds_weps = [example_wep]\<rparr>"

text \<open>The checker after the first half of the check on this cluster, run with
  \<open>showAllIPs = False\<close> and \<open>showProblemIPs = True\<close>.\<close>

definition example_loaded :: "snapshot IPAMChecker" where
  "example_loaded = snd (load ipv4_lib snapshot_client (NewIPAMChecker example_store False True))"

text \<open>Two clusters with a malformed address: on a node's Wireguard interface, and on a
  workload endpoint.\<close>

definition bad_node_store :: snapshot where
  "bad_node_store =
     \<lparr>ds_blocks = [], ds_pools = [],
      ds_nodes = [example_node,
                  \<lparr>Name = ''n2'', IPv4VXLANTunnelAddr = '''', Wireguard = Some ''10.0.0.300'',
                   BGP = None\<rparr>],
      ds_weps = [example_wep]\<rparr>"

definition bad_wep_store :: snapshot where
  "bad_wep_store =
     \<lparr>ds_blocks = [], ds_pools = [],
      ds_nodes = [example_node],
      ds_weps = [\<lparr>Namespace = ''ns'', WName = ''w2'', IPNetworks = [''10.0.0.2'', ''not-an-ip'']\<rparr>]\<rparr>"

text \<open>A cluster whose only pool is enabled and has a CIDR that does not parse.\<close>

definition bad_pool_store :: snapshot where
  "bad_pool_store =
     \<lparr>ds_blocks = [], ds_pools = [\<lparr>Spec_CIDR = ''10.0.0.0/33'', Spec_Disabled = False\<rparr>],
      ds_nodes = [], ds_weps = []\<rparr>"

section \<open>Properties\<close>

subsection \<open>Printing, and recording one address\<close>

lemma emit_fields [simp]:
  "allocations (emit l c) = allocations c"
  "inUseIPs (emit l c) = inUseIPs c"
  "showAllIPs (emit l c) = showAllIPs c"
  "showProblemIPs (emit l c) = showProblemIPs c"
  "datastore (emit l c) = datastore c"
  "stdout (emit l c) = stdout c @ [l]"
  by (simp_all add: emit_def)

lemma recordInUseIP_fields [simp]:
  "allocations (recordInUseIP ip ref name c) = allocations c"
  "inUseIPs (recordInUseIP ip ref name c) =
     (inUseIPs c)(ip \<mapsto> lookup_slice (inUseIPs c) ip @ [\<lparr>FriendlyName = name, Resource = ref\<rparr>])"
  "showAllIPs (recordInUseIP ip ref name c) = showAllIPs c"
  "showProblemIPs (recordInUseIP ip ref name c) = showProblemIPs c"
  "datastore (recordInUseIP ip ref name c) = datastore c"
  "stdout (recordInUseIP ip ref name c) =
     stdout c @ (if showAllIPs c then [BelongsToLine ip name] else [])"
  by (simp_all add: recordInUseIP_def Let_def)

lemma grows_refl [simp]: "grows Q c c"
  by (simp add: grows_def)

lemma grows_trans: "grows Q c c' \<Longrightarrow> grows Q c' c'' \<Longrightarrow> grows Q c c''"
proof -
  assume a: "grows Q c c'" and b: "grows Q c' c''"
  from a obtain out where o1: "stdout c' = stdout c @ out" "list_all Q out"
    unfolding grows_def by blast
  from b obtain out' where o2: "stdout c'' = stdout c' @ out'" "list_all Q out'"
    unfolding grows_def by blast
  have "stdout c'' = stdout c @ (out @ out') \<and> list_all Q (out @ out')"
    using o1 o2 by simp
  then have s: "\<exists>out. stdout c'' = stdout c @ out \<and> list_all Q out" by blast
  have u: "\<forall>ip. set (lookup_slice (inUseIPs c) ip) \<subseteq> set (lookup_slice (inUseIPs c'') ip)"
    using a b unfolding grows_def by (meson subset_trans)
  have d1: "dom (allocations c) \<subseteq> dom (allocations c'')"
    using a b unfolding grows_def by (meson subset_trans)
  have d2: "dom (inUseIPs c) \<subseteq> dom (inUseIPs c'')"
    using a b unfolding grows_def by (meson subset_trans)
  show ?thesis
    using a b s u d1 d2 unfolding grows_def by simp
qed

lemma grows_mono: "grows Q c c' \<Longrightarrow> (\<And>l. Q l \<Longrightarrow> Q' l) \<Longrightarrow> grows Q' c c'"
  unfolding grows_def by (auto simp: list_all_iff)

lemma grows_emit: "Q l \<Longrightarrow> grows Q c (emit l c)"
  by (simp add: grows_def)

lemma grows_recordInUseIP:
  "Q (BelongsToLine ip name) \<or> \<not> showAllIPs c \<Longrightarrow> grows Q c (recordInUseIP ip ref name c)"
  by (auto simp: grows_def lookup_slice_def)

subsection \<open>Recording one allocation\<close>

lemma in_set_enumerate_slice:
  "(ord, x) \<in> set (enumerate_slice xs) \<longleftrightarrow> index xs ord = Some x"
proof
  assume "(ord, x) \<in> set (enumerate_slice xs)"
  then obtain i where "i < length xs" "ord = int i" "x = xs ! i"
    by (auto simp: enumerate_slice_def in_set_zip)
  then show "index xs ord = Some x" by (simp add: index_def)
next
  assume "index xs ord = Some x"
  then have "0 \<le> ord" "nat ord < length xs" "x = xs ! nat ord"
    by (auto simp: index_def split: if_splits)
  then show "(ord, x) \<in> set (enumerate_slice xs)"
    by (auto simp: enumerate_slice_def in_set_zip intro!: exI [of _ "nat ord"])
qed

lemma recordAllocation_grows:
  assumes "recordAllocation L b ord c = (r, c')"
  shows "grows (\<lambda>l. all_ip_line l \<and> showAllIPs c) c c'"
proof -
  let ?ip = "IP_String L (OrdinalToIP L b ord)"
  let ?c1 = "c\<lparr>allocations := (allocations c)(?ip \<mapsto>
                 lookup_slice (allocations c) ?ip @ [\<lparr>Block = b, Ordinal = ord\<rparr>])\<rparr>"
  let ?Q = "\<lambda>l. all_ip_line l \<and> showAllIPs c"
  have g1: "grows ?Q c ?c1"
    by (auto simp: grows_def)
  have g2: "grows ?Q ?c1 c'"
    using assms
    by (auto simp: recordAllocation_def Let_def grows_def lookup_slice_def
             split: if_splits sum.splits option.splits)
  show ?thesis using g1 g2 by (rule grows_trans)
qed

lemma recordAllocation_datastore:
  "recordAllocation L b ord c = (r, c') \<Longrightarrow> datastore c' = datastore c"
  by (auto simp: recordAllocation_def Let_def split: if_splits sum.splits option.splits)

lemma recordAllocation_allocations:
  "recordAllocation L b ord c = (r, c') \<Longrightarrow>
   allocations c' = (allocations c)(IP_String L (OrdinalToIP L b ord) \<mapsto>
      lookup_slice (allocations c) (IP_String L (OrdinalToIP L b ord))
        @ [\<lparr>Block = b, Ordinal = ord\<rparr>])"
  by (auto simp: recordAllocation_def Let_def split: if_splits sum.splits option.splits)

lemma recordAllocation_None:
  "recordAllocation L b ord c = (None, c') \<Longrightarrow> \<not> isl (GetAttrString \<lparr>Block = b, Ordinal = ord\<rparr>)"
  by (auto simp: recordAllocation_def GetAttrString_def Let_def
           split: if_splits sum.splits option.splits)

lemma recordAllocation_allocs_ok:
  assumes "recordAllocation L b ord c = (None, c')" "allocs_ok c"
  shows "allocs_ok c'"
  using recordAllocation_allocations [OF assms(1)] recordAllocation_None [OF assms(1)] assms(2)
  by (auto simp: allocs_ok_def lookup_slice_def split: option.splits if_splits)

lemma recordAllocation_total:
  assumes "index (Allocations b) ord = Some (Some i)" "0 \<le> i"
  shows "\<exists>c'. recordAllocation L b ord c = (None, c')"
  using assms
  by (auto simp: recordAllocation_def GetAttrString_def Let_def index_def
           split: if_splits sum.splits option.splits)

lemma recordAllocation_reserved:
  assumes "index (Allocations b) ord = Some (Some i)" "index (Attributes b) i = Some attrs"
    and "AttrPrimary attrs = Some (WindowsReservedHandle L)"
  shows "\<exists>c'. recordAllocation L b ord c = (None, c') \<and>
           inUseIPs c' (IP_String L (OrdinalToIP L b ord)) =
             Some (lookup_slice (inUseIPs c) (IP_String L (OrdinalToIP L b ord))
                    @ [\<lparr>FriendlyName = ''Reserved for Windows'', Resource = BlockRef b\<rparr>])"
  using assms
  by (auto simp: recordAllocation_def GetAttrString_def Let_def index_def
           split: if_splits sum.splits option.splits)

subsection \<open>The loops of phase 1\<close>

lemma grows_showAllIPs: "grows Q c c' \<Longrightarrow> showAllIPs c' = showAllIPs c"
  by (simp add: grows_def)

lemma grows_load_step:
  assumes "grows (load_line (showAllIPs c)) c c1" "grows (load_line (showAllIPs c1)) c1 c2"
  shows "grows (load_line (showAllIPs c)) c c2"
  using assms grows_showAllIPs [OF assms(1)] by (auto intro: grows_trans)

lemma recordAllocation_load:
  "recordAllocation L b ord c = (r, c') \<Longrightarrow> grows (load_line (showAllIPs c)) c c'"
  by (erule recordAllocation_grows [THEN grows_mono]) (auto simp: load_line_def elim: all_ip_line.elims)

lemma allocationsLoop_load:
  "allocationsLoop L b xs c = (r, c') \<Longrightarrow> grows (load_line (showAllIPs c)) c c'"
proof (induction xs arbitrary: c)
  case Nil
  then show ?case by simp
next
  case (Cons x xs)
  obtain ord attrIdx where x: "x = (ord, attrIdx)" by (cases x)
  show ?case
  proof (cases "attrIdx = None")
    case True
    with Cons x show ?thesis by simp
  next
    case False
    obtain r1 c1 where ra: "recordAllocation L b ord c = (r1, c1)"
      by (cases "recordAllocation L b ord c")
    note g1 = recordAllocation_load [OF ra]
    show ?thesis
    proof (cases r1)
      case None
      with Cons.prems x False ra have "allocationsLoop L b xs c1 = (r, c')" by simp
      from Cons.IH [OF this] g1 show ?thesis by (rule grows_load_step [rotated])
    next
      case (Some e)
      with Cons.prems x False ra have "c' = c1" by simp
      with g1 show ?thesis by simp
    qed
  qed
qed

lemma allocationsLoop_datastore:
  "allocationsLoop L b xs c = (r, c') \<Longrightarrow> datastore c' = datastore c"
  by (induction xs arbitrary: c)
     (auto split: if_splits prod.splits option.splits dest: recordAllocation_datastore)

lemma allocationsLoop_allocs_ok:
  "allocationsLoop L b xs c = (None, c') \<Longrightarrow> allocs_ok c \<Longrightarrow> allocs_ok c'"
proof (induction xs arbitrary: c)
  case Nil
  then show ?case by simp
next
  case (Cons x xs)
  obtain ord attrIdx where x: "x = (ord, attrIdx)" by (cases x)
  show ?case
  proof (cases "attrIdx = None")
    case True
    with Cons x show ?thesis by simp
  next
    case False
    with Cons.prems(1) x obtain c1 where ra: "recordAllocation L b ord c = (None, c1)"
      and rest: "allocationsLoop L b xs c1 = (None, c')"
      by (auto split: prod.splits option.splits)
    from recordAllocation_allocs_ok [OF ra Cons.prems(2)] Cons.IH [OF rest] show ?thesis
      by blast
  qed
qed

lemma allocationsLoop_total:
  assumes "\<forall>(ord, x) \<in> set xs. index (Allocations b) ord = Some x \<and> (\<forall>i. x = Some i \<longrightarrow> 0 \<le> i)"
  shows "\<exists>c'. allocationsLoop L b xs c = (None, c')"
  using assms
proof (induction xs arbitrary: c)
  case Nil
  then show ?case by simp
next
  case (Cons x xs)
  obtain ord attrIdx where x: "x = (ord, attrIdx)" by (cases x)
  show ?case
  proof (cases attrIdx)
    case None
    with Cons x show ?thesis by simp
  next
    case (Some i)
    with Cons.prems x have "index (Allocations b) ord = Some (Some i)" "0 \<le> i" by auto
    from recordAllocation_total [OF this] obtain c1
      where "recordAllocation L b ord c = (None, c1)" by blast
    moreover from Cons.IH [of c1] Cons.prems obtain c'
      where "allocationsLoop L b xs c1 = (None, c')" by auto
    ultimately show ?thesis using x Some by simp
  qed
qed

lemma allocationsLoop_reserved:
  assumes "allocationsLoop L b xs c = (None, c')" "(ord, Some i) \<in> set xs"
    and "index (Allocations b) ord = Some (Some i)" "index (Attributes b) i = Some attrs"
    and "AttrPrimary attrs = Some (WindowsReservedHandle L)"
  shows "\<lparr>FriendlyName = ''Reserved for Windows'', Resource = BlockRef b\<rparr>
           \<in> set (lookup_slice (inUseIPs c') (IP_String L (OrdinalToIP L b ord)))"
  using assms(1,2)
proof (induction xs arbitrary: c)
  case Nil
  then show ?case by simp
next
  case (Cons x xs)
  obtain ord' attrIdx where x: "x = (ord', attrIdx)" by (cases x)
  let ?ip = "IP_String L (OrdinalToIP L b ord)"
  let ?o = "\<lparr>FriendlyName = ''Reserved for Windows'', Resource = BlockRef b\<rparr>"
  show ?case
  proof (cases "attrIdx = None")
    case True
    with Cons x show ?thesis by auto
  next
    case False
    obtain r1 c1 where ra: "recordAllocation L b ord' c = (r1, c1)"
      by (cases "recordAllocation L b ord' c")
    with Cons.prems(1) x False have r1: "r1 = None" and rest: "allocationsLoop L b xs c1 = (None, c')"
      by (auto split: option.splits)
    show ?thesis
    proof (cases "(ord, Some i) \<in> set xs")
      case True
      from Cons.IH [OF rest True] show ?thesis .
    next
      case False
      with Cons.prems(2) x have "ord' = ord" by auto
      with recordAllocation_reserved [OF assms(3,4,5), of c] ra
      have "?o \<in> set (lookup_slice (inUseIPs c1) ?ip)"
        by (auto simp: lookup_slice_def)
      moreover from allocationsLoop_load [OF rest]
      have "set (lookup_slice (inUseIPs c1) ?ip) \<subseteq> set (lookup_slice (inUseIPs c') ?ip)"
        by (simp add: grows_def)
      ultimately show ?thesis by blast
    qed
  qed
qed

lemma blocksLoop_load:
  "blocksLoop L bs c = (r, c') \<Longrightarrow> grows (load_line (showAllIPs c)) c c'"
proof (induction bs arbitrary: c)
  case Nil
  then show ?case by simp
next
  case (Cons b bs)
  let ?c1 = "emit (BlockLine (CIDR b) (case Affinity b of None \<Rightarrow> ''<none>'' | Some a \<Rightarrow> a)) c"
  obtain r2 c2 where al: "allocationsLoop L b (enumerate_slice (Allocations b)) ?c1 = (r2, c2)"
    by (cases "allocationsLoop L b (enumerate_slice (Allocations b)) ?c1")
  have g1: "grows (load_line (showAllIPs c)) c ?c1"
    by (rule grows_emit) (simp add: load_line_def)
  have g2: "grows (load_line (showAllIPs c)) c c2"
    using g1 allocationsLoop_load [OF al] by (rule grows_load_step)
  show ?case
  proof (cases r2)
    case None
    with Cons.prems al have "blocksLoop L bs c2 = (r, c')" by (simp add: Let_def)
    from g2 Cons.IH [OF this] show ?thesis by (rule grows_load_step)
  next
    case (Some e)
    with Cons.prems al have "c' = c2" by (simp add: Let_def)
    with g2 show ?thesis by simp
  qed
qed

lemma blocksLoop_datastore:
  "blocksLoop L bs c = (r, c') \<Longrightarrow> datastore c' = datastore c"
  by (induction bs arbitrary: c)
     (auto simp: Let_def split: prod.splits option.splits dest: allocationsLoop_datastore)

lemma allocs_ok_emit [simp]: "allocs_ok (emit l c) = allocs_ok c"
  by (simp add: allocs_ok_def)

lemma blocksLoop_allocs_ok:
  "blocksLoop L bs c = (None, c') \<Longrightarrow> allocs_ok c \<Longrightarrow> allocs_ok c'"
proof (induction bs arbitrary: c)
  case Nil
  then show ?case by simp
next
  case (Cons b bs)
  then show ?case
    by (auto simp: Let_def split: prod.splits option.splits
             dest!: allocationsLoop_allocs_ok)
qed

lemma enumerate_slice_ok:
  assumes "block_indices_ok b"
  shows "\<forall>(ord, x) \<in> set (enumerate_slice (Allocations b)).
           index (Allocations b) ord = Some x \<and> (\<forall>i. x = Some i \<longrightarrow> 0 \<le> i)"
proof -
  have "x \<in> set (Allocations b)" if "(ord, x) \<in> set (enumerate_slice (Allocations b))" for ord x
    using that by (auto simp: enumerate_slice_def dest: set_zip_rightD)
  then show ?thesis
    using assms by (auto simp: in_set_enumerate_slice block_indices_ok_def)
qed

lemma blocksLoop_total:
  assumes "\<forall>b \<in> set bs. block_indices_ok b"
  shows "\<exists>c'. blocksLoop L bs c = (None, c')"
  using assms
proof (induction bs arbitrary: c)
  case Nil
  then show ?case by simp
next
  case (Cons b bs)
  let ?c1 = "emit (BlockLine (CIDR b) (case Affinity b of None \<Rightarrow> ''<none>'' | Some a \<Rightarrow> a)) c"
  from Cons.prems have "block_indices_ok b" by simp
  from allocationsLoop_total [OF enumerate_slice_ok [OF this], of L ?c1] obtain c2
    where "allocationsLoop L b (enumerate_slice (Allocations b)) ?c1 = (None, c2)" by blast
  moreover from Cons.IH [of c2] Cons.prems obtain c'
    where "blocksLoop L bs c2 = (None, c')" by auto
  ultimately show ?case by (simp add: Let_def)
qed

lemma blocksLoop_reserved:
  assumes "blocksLoop L bs c = (None, c')" "b \<in> set bs"
    and "index (Allocations b) ord = Some (Some i)" "index (Attributes b) i = Some attrs"
    and "AttrPrimary attrs = Some (WindowsReservedHandle L)"
  shows "\<lparr>FriendlyName = ''Reserved for Windows'', Resource = BlockRef b\<rparr>
           \<in> set (lookup_slice (inUseIPs c') (IP_String L (OrdinalToIP L b ord)))"
  using assms(1,2)
proof (induction bs arbitrary: c)
  case Nil
  then show ?case by simp
next
  case (Cons b' bs)
  let ?c1 = "emit (BlockLine (CIDR b') (case Affinity b' of None \<Rightarrow> ''<none>'' | Some a \<Rightarrow> a)) c"
  let ?ip = "IP_String L (OrdinalToIP L b ord)"
  from Cons.prems(1) obtain c2
    where al: "allocationsLoop L b' (enumerate_slice (Allocations b')) ?c1 = (None, c2)"
      and rest: "blocksLoop L bs c2 = (None, c')"
    by (auto simp: Let_def split: prod.splits option.splits)
  show ?case
  proof (cases "b \<in> set bs")
    case True
    from Cons.IH [OF rest True] show ?thesis .
  next
    case False
    with Cons.prems(2) have b: "b' = b" by simp
    have "(ord, Some i) \<in> set (enumerate_slice (Allocations b))"
      using assms(3) by (simp add: in_set_enumerate_slice)
    from allocationsLoop_reserved [OF al [unfolded b] this assms(3,4,5)]
    have "\<lparr>FriendlyName = ''Reserved for Windows'', Resource = BlockRef b\<rparr>
            \<in> set (lookup_slice (inUseIPs c2) ?ip)" .
    moreover from blocksLoop_load [OF rest]
    have "set (lookup_slice (inUseIPs c2) ?ip) \<subseteq> set (lookup_slice (inUseIPs c') ?ip)"
      by (simp add: grows_def)
    ultimately show ?thesis by blast
  qed
qed

subsection \<open>States that differ in the printed lines only\<close>

lemma prints_refl [simp]: "prints Q c c"
  unfolding prints_def by (rule exI [of _ "[]"]) simp

lemma prints_trans: "prints Q c c' \<Longrightarrow> prints Q c' c'' \<Longrightarrow> prints Q c c''"
proof -
  assume "prints Q c c'" "prints Q c' c''"
  then obtain o1 o2 where "c' = c\<lparr>stdout := stdout c @ o1\<rparr>" "list_all Q o1"
    "c'' = c'\<lparr>stdout := stdout c' @ o2\<rparr>" "list_all Q o2"
    unfolding prints_def by blast
  then have "c'' = c\<lparr>stdout := stdout c @ (o1 @ o2)\<rparr> \<and> list_all Q (o1 @ o2)" by simp
  then show ?thesis unfolding prints_def by blast
qed

lemma prints_emit: "Q l \<Longrightarrow> prints Q c (emit l c)"
  unfolding prints_def by (rule exI [of _ "[l]"]) (simp add: emit_def)

lemma prints_fields:
  assumes "prints Q c c'"
  shows "allocations c' = allocations c" "inUseIPs c' = inUseIPs c"
    "showAllIPs c' = showAllIPs c" "showProblemIPs c' = showProblemIPs c"
    "datastore c' = datastore c"
  using assms unfolding prints_def by auto

lemma prints_grows: "prints Q c c' \<Longrightarrow> grows Q c c'"
  unfolding prints_def grows_def by auto

lemma allocs_ok_cong: "allocations c' = allocations c \<Longrightarrow> allocs_ok c' = allocs_ok c"
  by (simp add: allocs_ok_def)

subsection \<open>Phase 1\<close>

lemma loadBlocks_load:
  assumes "loadBlocks L cl c = (r, c')"
  shows "grows (load_line (showAllIPs c)) c c'"
proof -
  let ?c1 = "emit (Println ''Loading all IPAM blocks...'') c"
  obtain blocks ds where l: "BackendListBlocks cl (datastore ?c1) = (blocks, ds)"
    by (cases "BackendListBlocks cl (datastore ?c1)")
  let ?c2 = "?c1\<lparr>datastore := ds\<rparr>"
  have g2: "grows (load_line (showAllIPs c)) c ?c2"
    by (simp add: grows_def load_line_def)
  show ?thesis
  proof (cases blocks)
    case (Inl err)
    with assms l have "c' = ?c2" by (simp add: loadBlocks_def Let_def)
    with g2 show ?thesis by simp
  next
    case (Inr kvps)
    let ?c2' = "emit (FoundBlocks (length kvps)) ?c2"
    obtain r3 c3 where bl: "blocksLoop L kvps ?c2' = (r3, c3)"
      by (cases "blocksLoop L kvps ?c2'")
    have g2': "grows (load_line (showAllIPs c)) c ?c2'"
      by (simp add: grows_def load_line_def)
    have g3: "grows (load_line (showAllIPs c)) c c3"
      using g2' blocksLoop_load [OF bl] by (rule grows_load_step)
    show ?thesis
    proof (cases r3)
      case None
      with assms l Inr bl
      have "c' = emit (Println []) (emit (RecordAllocs (card (dom (allocations c3)))) c3)"
        by (simp add: loadBlocks_def Let_def)
      moreover have "grows (load_line (showAllIPs c)) c3
                       (emit (Println []) (emit (RecordAllocs (card (dom (allocations c3)))) c3))"
        by (simp add: grows_def load_line_def)
      ultimately show ?thesis using g3 by (auto intro: grows_trans)
    next
      case (Some e)
      with assms l Inr bl have "c' = c3" by (simp add: loadBlocks_def Let_def)
      with g3 show ?thesis by simp
    qed
  qed
qed

lemma loadBlocks_datastore:
  "loadBlocks L cl c = (r, c') \<Longrightarrow> datastore c' = snd (BackendListBlocks cl (datastore c))"
  by (auto simp: loadBlocks_def Let_def split: prod.splits sum.splits option.splits
           dest!: blocksLoop_datastore)

lemma allocs_ok_datastore [simp]: "allocs_ok (c\<lparr>datastore := ds\<rparr>) = allocs_ok c"
  by (simp add: allocs_ok_def)

lemma loadBlocks_allocs_ok:
  assumes "loadBlocks L cl c = (None, c')" "allocs_ok c"
  shows "allocs_ok c'"
proof -
  from assms(1) obtain kvps ds c3
    where "blocksLoop L kvps (emit (FoundBlocks (length kvps))
             ((emit (Println ''Loading all IPAM blocks...'') c)\<lparr>datastore := ds\<rparr>)) = (None, c3)"
      and c': "c' = emit (Println []) (emit (RecordAllocs (card (dom (allocations c3)))) c3)"
    by (auto simp: loadBlocks_def Let_def split: prod.splits sum.splits option.splits)
  from blocksLoop_allocs_ok [OF this(1)] assms(2) have "allocs_ok c3" by simp
  with c' show ?thesis by simp
qed

lemma loadBlocks_total:
  assumes "BackendListBlocks cl (datastore c) = (Inr bs, ds)" "\<forall>b \<in> set bs. block_indices_ok b"
  shows "\<exists>c'. loadBlocks L cl c = (None, c')"
proof -
  from blocksLoop_total [OF assms(2)] obtain c3
    where "blocksLoop L bs (emit (FoundBlocks (length bs))
             ((emit (Println ''Loading all IPAM blocks...'') c)\<lparr>datastore := ds\<rparr>)) = (None, c3)"
    by blast
  with assms(1) show ?thesis by (simp add: loadBlocks_def Let_def)
qed

lemma loadBlocks_reserved:
  assumes "loadBlocks L cl c = (None, c')" "BackendListBlocks cl (datastore c) = (Inr bs, ds)"
    and "b \<in> set bs"
    and "index (Allocations b) ord = Some (Some i)" "index (Attributes b) i = Some attrs"
    and "AttrPrimary attrs = Some (WindowsReservedHandle L)"
  shows "\<lparr>FriendlyName = ''Reserved for Windows'', Resource = BlockRef b\<rparr>
           \<in> set (lookup_slice (inUseIPs c') (IP_String L (OrdinalToIP L b ord)))"
proof -
  from assms(1,2) obtain c3
    where bl: "blocksLoop L bs (emit (FoundBlocks (length bs))
             ((emit (Println ''Loading all IPAM blocks...'') c)\<lparr>datastore := ds\<rparr>)) = (None, c3)"
      and c': "c' = emit (Println []) (emit (RecordAllocs (card (dom (allocations c3)))) c3)"
    by (auto simp: loadBlocks_def Let_def split: prod.splits sum.splits option.splits)
  from blocksLoop_reserved [OF bl assms(3,4,5,6)] c' show ?thesis by simp
qed

subsection \<open>Phase 2\<close>

lemma poolsLoop_prints:
  "poolsLoop L ps active c = (r, c') \<Longrightarrow> prints (load_line (showAllIPs c)) c c'"
proof (induction ps arbitrary: active c)
  case Nil
  then show ?case by simp
next
  case (Cons p ps)
  show ?case
  proof (cases "Spec_Disabled p")
    case True
    with Cons show ?thesis by simp
  next
    case False
    let ?c1 = "emit (PoolLine (Spec_CIDR p)) c"
    have p1: "prints (load_line (showAllIPs c)) c ?c1"
      by (rule prints_emit) (simp add: load_line_def)
    show ?thesis
    proof (cases "ParseCIDR L (Spec_CIDR p)")
      case (Inl err)
      with Cons.prems False have "c' = ?c1" by (simp add: Let_def)
      with p1 show ?thesis by simp
    next
      case (Inr cidr)
      with Cons.prems False have "poolsLoop L ps (active @ [cidr]) ?c1 = (r, c')"
        by (simp add: Let_def)
      from Cons.IH [OF this] have "prints (load_line (showAllIPs c)) ?c1 c'" by simp
      with p1 show ?thesis by (rule prints_trans)
    qed
  qed
qed

lemma poolsLoop_Inr:
  "poolsLoop L ps active c = (Inr pools, c') \<Longrightarrow>
   \<exists>new. pools = active @ new \<and>
     map (\<lambda>p. ParseCIDR L (Spec_CIDR p)) (filter (\<lambda>p. \<not> Spec_Disabled p) ps) = map Inr new"
proof (induction ps arbitrary: active c)
  case Nil
  then show ?case by simp
next
  case (Cons p ps)
  show ?case
  proof (cases "Spec_Disabled p")
    case True
    with Cons show ?thesis by simp
  next
    case False
    with Cons.prems obtain cidr where cidr: "ParseCIDR L (Spec_CIDR p) = Inr cidr"
      and rest: "poolsLoop L ps (active @ [cidr]) (emit (PoolLine (Spec_CIDR p)) c) = (Inr pools, c')"
      by (auto simp: Let_def split: sum.splits)
    from Cons.IH [OF rest] obtain new where "pools = (active @ [cidr]) @ new"
      "map (\<lambda>p. ParseCIDR L (Spec_CIDR p)) (filter (\<lambda>p. \<not> Spec_Disabled p) ps) = map Inr new"
      by blast
    with False cidr have "pools = active @ (cidr # new) \<and>
      map (\<lambda>p. ParseCIDR L (Spec_CIDR p)) (filter (\<lambda>p. \<not> Spec_Disabled p) (p # ps))
        = map Inr (cidr # new)" by simp
    then show ?thesis by blast
  qed
qed

lemma poolsLoop_total:
  assumes "\<forall>p \<in> set ps. \<not> Spec_Disabled p \<longrightarrow> \<not> isl (ParseCIDR L (Spec_CIDR p))"
  shows "\<exists>pools c'. poolsLoop L ps active c = (Inr pools, c')"
  using assms
proof (induction ps arbitrary: active c)
  case Nil
  then show ?case by simp
next
  case (Cons p ps)
  show ?case
  proof (cases "Spec_Disabled p")
    case True
    with Cons show ?thesis by simp
  next
    case False
    with Cons.prems obtain cidr where cidr: "ParseCIDR L (Spec_CIDR p) = Inr cidr"
      by (cases "ParseCIDR L (Spec_CIDR p)") auto
    from Cons.IH [of "active @ [cidr]" "emit (PoolLine (Spec_CIDR p)) c"] Cons.prems
    obtain pools c' where
      "poolsLoop L ps (active @ [cidr]) (emit (PoolLine (Spec_CIDR p)) c) = (Inr pools, c')"
      by auto
    with False cidr show ?thesis by (simp add: Let_def)
  qed
qed

lemma loadPools_load:
  assumes "loadPools L cl c = (r, c')"
  shows "grows (load_line (showAllIPs c)) c c'"
    and "allocations c' = allocations c" and "inUseIPs c' = inUseIPs c"
    and "datastore c' = snd (IPPoolsList cl (datastore c))"
proof -
  let ?c1 = "emit (Println ''Loading all IPAM pools...'') c"
  obtain ipPools ds where l: "IPPoolsList cl (datastore c) = (ipPools, ds)"
    by (cases "IPPoolsList cl (datastore c)")
  let ?c2 = "?c1\<lparr>datastore := ds\<rparr>"
  have g2: "grows (load_line (showAllIPs c)) c ?c2"
    by (simp add: grows_def load_line_def)
  have "grows (load_line (showAllIPs c)) c c' \<and> allocations c' = allocations c \<and>
        inUseIPs c' = inUseIPs c \<and> datastore c' = ds"
  proof (cases ipPools)
    case (Inl err)
    with assms l have "c' = ?c2" by (simp add: loadPools_def Let_def)
    with g2 show ?thesis by simp
  next
    case (Inr items)
    obtain r3 c3 where pl: "poolsLoop L items [] ?c2 = (r3, c3)"
      by (cases "poolsLoop L items [] ?c2")
    from poolsLoop_prints [OF pl] have p3: "prints (load_line (showAllIPs c)) ?c2 c3" by simp
    note f3 = prints_fields [OF p3]
    have g3: "grows (load_line (showAllIPs c)) c c3"
      using g2 prints_grows [OF p3] by (rule grows_trans)
    show ?thesis
    proof (cases r3)
      case (Inl e)
      with assms l Inr pl have "c' = c3" by (simp add: loadPools_def Let_def)
      with g3 f3 show ?thesis by simp
    next
      case (Inr active)
      with assms l \<open>ipPools = Inr items\<close> pl
      have c': "c' = emit (Println []) (emit (FoundPools (length active)) c3)"
        by (simp add: loadPools_def Let_def)
      have "grows (load_line (showAllIPs c)) c3 c'"
        unfolding c' by (simp add: grows_def load_line_def)
      with g3 have "grows (load_line (showAllIPs c)) c c'" by (rule grows_trans)
      with f3 c' show ?thesis by simp
    qed
  qed
  with l show "grows (load_line (showAllIPs c)) c c'"
    and "allocations c' = allocations c" and "inUseIPs c' = inUseIPs c"
    and "datastore c' = snd (IPPoolsList cl (datastore c))" by simp_all
qed

lemma loadPools_Inr:
  assumes "loadPools L cl c = (Inr pools, c')" "IPPoolsList cl (datastore c) = (Inr ps, ds)"
  shows "map (\<lambda>p. ParseCIDR L (Spec_CIDR p)) (filter (\<lambda>p. \<not> Spec_Disabled p) ps) = map Inr pools"
proof -
  from assms obtain c3
    where "poolsLoop L ps [] ((emit (Println ''Loading all IPAM pools...'') c)\<lparr>datastore := ds\<rparr>)
             = (Inr pools, c3)"
    by (auto simp: loadPools_def Let_def split: prod.splits sum.splits)
  from poolsLoop_Inr [OF this] show ?thesis by simp
qed

lemma loadPools_total:
  assumes "IPPoolsList cl (datastore c) = (Inr ps, ds)"
    and "\<forall>p \<in> set ps. \<not> Spec_Disabled p \<longrightarrow> \<not> isl (ParseCIDR L (Spec_CIDR p))"
  shows "\<exists>pools c'. loadPools L cl c = (Inr pools, c')"
proof -
  from poolsLoop_total [OF assms(2)] obtain pools c3
    where "poolsLoop L ps [] ((emit (Println ''Loading all IPAM pools...'') c)\<lparr>datastore := ds\<rparr>)
             = (Inr pools, c3)"
    by blast
  with assms(1) show ?thesis by (simp add: loadPools_def Let_def)
qed

subsection \<open>Phases 3 and 4\<close>

lemma getNodeIPs_fields: "getNodeIPs L n = normalise_fields L (Name n) (node_fields n) []"
proof (cases "IPv4VXLANTunnelAddr n = []")
  case v: True
  show ?thesis
  proof (cases "Wireguard n")
    case w: None
    show ?thesis
    proof (cases "BGP n")
      case None
      with v w show ?thesis by (simp add: getNodeIPs_def node_fields_def)
    next
      case (Some b)
      with v w show ?thesis by (simp add: getNodeIPs_def node_fields_def split: sum.splits)
    qed
  next
    case w: (Some a)
    show ?thesis
    proof (cases "BGP n")
      case None
      with v w show ?thesis by (simp add: getNodeIPs_def node_fields_def split: sum.splits)
    next
      case (Some b)
      with v w show ?thesis by (simp add: getNodeIPs_def node_fields_def split: sum.splits)
    qed
  qed
next
  case v: False
  show ?thesis
  proof (cases "Wireguard n")
    case w: None
    show ?thesis
    proof (cases "BGP n")
      case None
      with v w show ?thesis by (simp add: getNodeIPs_def node_fields_def split: sum.splits)
    next
      case (Some b)
      with v w show ?thesis by (simp add: getNodeIPs_def node_fields_def split: sum.splits)
    qed
  next
    case w: (Some a)
    show ?thesis
    proof (cases "BGP n")
      case None
      with v w show ?thesis by (simp add: getNodeIPs_def node_fields_def split: sum.splits)
    next
      case (Some b)
      with v w show ?thesis by (simp add: getNodeIPs_def node_fields_def split: sum.splits)
    qed
  qed
qed

lemma normalise_fields_isl:
  "isl (normalise_fields L name fs ips) \<longleftrightarrow> (\<exists>a. a \<in> set (map snd fs) \<and> isl (normaliseIP L a))"
proof (induction fs arbitrary: ips)
  case Nil
  show ?case by simp
next
  case (Cons f fs)
  obtain field raw where f: "f = (field, raw)" by (cases f)
  show ?case
  proof (cases "normaliseIP L raw")
    case (Inl err)
    with f show ?thesis by auto
  next
    case (Inr ip)
    with Cons [of "ips @ [ip]"] f show ?thesis by auto
  qed
qed

lemma getWEPIPs_loop_Inl:
  "getWEPIPs_loop L w as ips = Inl e \<Longrightarrow>
   \<exists>raw cause. e = ParseWEPIPFailed raw (Namespace w) (WName w) cause \<and>
      raw \<in> set as \<and> normaliseIP L raw = Inl cause"
proof (induction as arbitrary: ips)
  case Nil
  then show ?case by simp
next
  case (Cons a as)
  show ?case
  proof (cases "normaliseIP L a")
    case (Inl err)
    with Cons.prems show ?thesis by auto
  next
    case (Inr ip)
    with Cons.prems have "getWEPIPs_loop L w as (ips @ [ip]) = Inl e" by simp
    from Cons.IH [OF this] show ?thesis by auto
  qed
qed

lemma getWEPIPs_loop_isl:
  "isl (getWEPIPs_loop L w as ips) \<longleftrightarrow> (\<exists>a. a \<in> set as \<and> isl (normaliseIP L a))"
proof (induction as arbitrary: ips)
  case Nil
  show ?case by simp
next
  case (Cons a as)
  show ?case
  proof (cases "normaliseIP L a")
    case (Inl err)
    then show ?thesis by auto
  next
    case (Inr ip)
    with Cons [of "ips @ [ip]"] show ?thesis by auto
  qed
qed

lemma getWEPIPs_Inl:
  "getWEPIPs L w = Inl e \<Longrightarrow>
   \<exists>raw cause. e = ParseWEPIPFailed raw (Namespace w) (WName w) cause \<and>
      raw \<in> set (IPNetworks w) \<and> normaliseIP L raw = Inl cause"
  unfolding getWEPIPs_def by (rule getWEPIPs_loop_Inl)

lemma getWEPIPs_isl:
  "isl (getWEPIPs L w) \<longleftrightarrow> (\<exists>a. a \<in> set (IPNetworks w) \<and> isl (normaliseIP L a))"
  unfolding getWEPIPs_def by (rule getWEPIPs_loop_isl)

lemma recordInUseIP_load:
  "grows (load_line (showAllIPs c)) c (recordInUseIP ip ref name c)"
  by (rule grows_recordInUseIP) (simp add: load_line_def)

lemma recordInUseIPs_load:
  "grows (load_line (showAllIPs c)) c (recordInUseIPs ips ref name c)"
proof (induction ips arbitrary: c)
  case Nil
  show ?case by simp
next
  case (Cons ip ips)
  from recordInUseIP_load [of c ip ref name] Cons [of "recordInUseIP ip ref name c"]
  show ?case by (auto intro: grows_load_step)
qed

lemma recordInUseIPs_fields [simp]:
  "allocations (recordInUseIPs ips ref name c) = allocations c"
  "datastore (recordInUseIPs ips ref name c) = datastore c"
  "showAllIPs (recordInUseIPs ips ref name c) = showAllIPs c"
  "showProblemIPs (recordInUseIPs ips ref name c) = showProblemIPs c"
  by (induction ips arbitrary: c) simp_all

lemma nodesLoop_load:
  "nodesLoop L ns k c = (r, c') \<Longrightarrow>
   grows (load_line (showAllIPs c)) c c' \<and> allocations c' = allocations c \<and>
   datastore c' = datastore c"
proof (induction ns arbitrary: k c)
  case Nil
  then show ?case by simp
next
  case (Cons n ns)
  show ?case
  proof (cases "getNodeIPs L n")
    case (Inl err)
    with Cons.prems show ?thesis by simp
  next
    case (Inr ips)
    let ?c1 = "recordInUseIPs ips (NodeRef n) (''Node('' @ Name n @ '')'') c"
    from Cons.prems Inr have "nodesLoop L ns (k + length ips) ?c1 = (r, c')" by simp
    from Cons.IH [OF this] recordInUseIPs_load [of c ips "NodeRef n" "''Node('' @ Name n @ '')''"]
    show ?thesis by (auto intro: grows_trans)
  qed
qed

lemma nodesLoop_Inl:
  assumes "\<exists>n \<in> set ns. isl (getNodeIPs L n)"
  shows "\<exists>n \<in> set ns. \<exists>e. getNodeIPs L n = Inl e \<and> fst (nodesLoop L ns k c) = Inl e"
  using assms
proof (induction ns arbitrary: k c)
  case Nil
  then show ?case by simp
next
  case (Cons n ns)
  show ?case
  proof (cases "getNodeIPs L n")
    case (Inl err)
    then show ?thesis by simp
  next
    case (Inr ips)
    with Cons.prems have "\<exists>n \<in> set ns. isl (getNodeIPs L n)" by auto
    from Cons.IH [OF this, of "k + length ips"
        "recordInUseIPs ips (NodeRef n) (''Node('' @ Name n @ '')'') c"] Inr
    show ?thesis by auto
  qed
qed

lemma nodesLoop_total:
  assumes "\<forall>n \<in> set ns. \<not> isl (getNodeIPs L n)"
  shows "\<exists>k' c'. nodesLoop L ns k c = (Inr k', c')"
  using assms
proof (induction ns arbitrary: k c)
  case Nil
  then show ?case by simp
next
  case (Cons n ns)
  then obtain ips where "getNodeIPs L n = Inr ips" by (cases "getNodeIPs L n") auto
  with Cons show ?case by simp
qed

lemma wepsLoop_load:
  "wepsLoop L ws k c = (r, c') \<Longrightarrow>
   grows (load_line (showAllIPs c)) c c' \<and> allocations c' = allocations c \<and>
   datastore c' = datastore c"
proof (induction ws arbitrary: k c)
  case Nil
  then show ?case by simp
next
  case (Cons w ws)
  show ?case
  proof (cases "getWEPIPs L w")
    case (Inl err)
    with Cons.prems show ?thesis by simp
  next
    case (Inr ips)
    let ?name = "''Workload('' @ Namespace w @ ''/'' @ WName w @ '')''"
    let ?c1 = "recordInUseIPs ips (WEPRef w) ?name c"
    from Cons.prems Inr have "wepsLoop L ws (k + length ips) ?c1 = (r, c')" by simp
    from Cons.IH [OF this] recordInUseIPs_load [of c ips "WEPRef w" ?name]
    show ?thesis by (auto intro: grows_trans)
  qed
qed

lemma wepsLoop_Inl:
  assumes "\<exists>w \<in> set ws. isl (getWEPIPs L w)"
  shows "\<exists>w \<in> set ws. \<exists>e. getWEPIPs L w = Inl e \<and> fst (wepsLoop L ws k c) = Inl e"
  using assms
proof (induction ws arbitrary: k c)
  case Nil
  then show ?case by simp
next
  case (Cons w ws)
  show ?case
  proof (cases "getWEPIPs L w")
    case (Inl err)
    then show ?thesis by simp
  next
    case (Inr ips)
    with Cons.prems have "\<exists>w \<in> set ws. isl (getWEPIPs L w)" by auto
    from Cons.IH [OF this, of "k + length ips" "recordInUseIPs ips (WEPRef w)
        (''Workload('' @ Namespace w @ ''/'' @ WName w @ '')'') c"] Inr
    show ?thesis by auto
  qed
qed

lemma wepsLoop_total:
  assumes "\<forall>w \<in> set ws. \<not> isl (getWEPIPs L w)"
  shows "\<exists>k' c'. wepsLoop L ws k c = (Inr k', c')"
  using assms
proof (induction ws arbitrary: k c)
  case Nil
  then show ?case by simp
next
  case (Cons w ws)
  then obtain ips where "getWEPIPs L w = Inr ips" by (cases "getWEPIPs L w") auto
  with Cons show ?case by simp
qed

lemma loadNodes_load:
  assumes "loadNodes L cl c = (r, c')"
  shows "grows (load_line (showAllIPs c)) c c'"
    and "allocations c' = allocations c"
    and "datastore c' = snd (NodesList cl (datastore c))"
proof -
  let ?c1 = "emit (Println ''Loading all nodes.'') c"
  obtain nodes ds where l: "NodesList cl (datastore c) = (nodes, ds)"
    by (cases "NodesList cl (datastore c)")
  let ?c2 = "?c1\<lparr>datastore := ds\<rparr>"
  have g2: "grows (load_line (showAllIPs c)) c ?c2"
    by (simp add: grows_def load_line_def)
  have "grows (load_line (showAllIPs c)) c c' \<and> allocations c' = allocations c \<and>
        datastore c' = ds"
  proof (cases nodes)
    case (Inl err)
    with assms l have "c' = ?c2" by (simp add: loadNodes_def Let_def)
    with g2 show ?thesis by simp
  next
    case (Inr items)
    obtain r3 c3 where nl: "nodesLoop L items 0 ?c2 = (r3, c3)"
      by (cases "nodesLoop L items 0 ?c2")
    from nodesLoop_load [OF nl]
    have n3: "grows (load_line (showAllIPs c)) ?c2 c3" "allocations c3 = allocations c"
      "datastore c3 = ds" by simp_all
    have g3: "grows (load_line (showAllIPs c)) c c3"
      using g2 n3(1) by (rule grows_trans)
    show ?thesis
    proof (cases r3)
      case (Inl e)
      with assms l Inr nl have "c' = c3" by (simp add: loadNodes_def Let_def)
      with g3 n3 show ?thesis by simp
    next
      case (Inr numNodeIPs)
      with assms l \<open>nodes = Inr items\<close> nl
      have c': "c' = emit (Println []) (emit (FoundNodeIPs numNodeIPs) c3)"
        by (simp add: loadNodes_def Let_def)
      have "grows (load_line (showAllIPs c)) c3 c'"
        unfolding c' by (simp add: grows_def load_line_def)
      with g3 have "grows (load_line (showAllIPs c)) c c'" by (rule grows_trans)
      with n3 c' show ?thesis by simp
    qed
  qed
  with l show "grows (load_line (showAllIPs c)) c c'"
    and "allocations c' = allocations c"
    and "datastore c' = snd (NodesList cl (datastore c))" by simp_all
qed

lemma loadNodes_Inl:
  assumes "NodesList cl (datastore c) = (Inr ns, ds)" "\<exists>n \<in> set ns. isl (getNodeIPs L n)"
  shows "\<exists>n \<in> set ns. \<exists>e. getNodeIPs L n = Inl e \<and> fst (loadNodes L cl c) = Some e"
proof -
  let ?c2 = "(emit (Println ''Loading all nodes.'') c)\<lparr>datastore := ds\<rparr>"
  from nodesLoop_Inl [OF assms(2), of 0 ?c2] obtain n e
    where "n \<in> set ns" "getNodeIPs L n = Inl e" "fst (nodesLoop L ns 0 ?c2) = Inl e" by blast
  moreover from this(3) assms(1) have "fst (loadNodes L cl c) = Some e"
    by (cases "nodesLoop L ns 0 ?c2") (simp add: loadNodes_def Let_def)
  ultimately show ?thesis by blast
qed

lemma loadNodes_total:
  assumes "NodesList cl (datastore c) = (Inr ns, ds)" "\<forall>n \<in> set ns. \<not> isl (getNodeIPs L n)"
  shows "\<exists>c'. loadNodes L cl c = (None, c')"
proof -
  let ?c2 = "(emit (Println ''Loading all nodes.'') c)\<lparr>datastore := ds\<rparr>"
  from nodesLoop_total [OF assms(2), of 0 ?c2] obtain k' c3
    where "nodesLoop L ns 0 ?c2 = (Inr k', c3)" by blast
  with assms(1) show ?thesis by (simp add: loadNodes_def Let_def)
qed

lemma loadWEPs_load:
  assumes "loadWEPs L cl c = (r, c')"
  shows "grows (load_line (showAllIPs c)) c c'"
    and "allocations c' = allocations c"
    and "datastore c' = snd (WorkloadEndpointsList cl (datastore c))"
proof -
  let ?c1 = "emit (Println ''Loading all workload endpoints.'') c"
  obtain weps ds where l: "WorkloadEndpointsList cl (datastore c) = (weps, ds)"
    by (cases "WorkloadEndpointsList cl (datastore c)")
  let ?c2 = "?c1\<lparr>datastore := ds\<rparr>"
  have g2: "grows (load_line (showAllIPs c)) c ?c2"
    by (simp add: grows_def load_line_def)
  have "grows (load_line (showAllIPs c)) c c' \<and> allocations c' = allocations c \<and>
        datastore c' = ds"
  proof (cases weps)
    case (Inl err)
    with assms l have "c' = ?c2" by (simp add: loadWEPs_def Let_def)
    with g2 show ?thesis by simp
  next
    case (Inr items)
    obtain r3 c3 where wl: "wepsLoop L items 0 ?c2 = (r3, c3)"
      by (cases "wepsLoop L items 0 ?c2")
    from wepsLoop_load [OF wl]
    have n3: "grows (load_line (showAllIPs c)) ?c2 c3" "allocations c3 = allocations c"
      "datastore c3 = ds" by simp_all
    have g3: "grows (load_line (showAllIPs c)) c c3"
      using g2 n3(1) by (rule grows_trans)
    show ?thesis
    proof (cases r3)
      case (Inl e)
      with assms l Inr wl have "c' = c3" by (simp add: loadWEPs_def Let_def)
      with g3 n3 show ?thesis by simp
    next
      case (Inr numNodeIPs)
      with assms l \<open>weps = Inr items\<close> wl
      have c': "c' = emit (Println []) (emit (UsingIPs (card (dom (inUseIPs c3))))
                       (emit (FoundWorkloadIPs numNodeIPs) c3))"
        by (simp add: loadWEPs_def Let_def)
      have "grows (load_line (showAllIPs c)) c3 c'"
        unfolding c' by (simp add: grows_def load_line_def)
      with g3 have "grows (load_line (showAllIPs c)) c c'" by (rule grows_trans)
      with n3 c' show ?thesis by simp
    qed
  qed
  with l show "grows (load_line (showAllIPs c)) c c'"
    and "allocations c' = allocations c"
    and "datastore c' = snd (WorkloadEndpointsList cl (datastore c))" by simp_all
qed

lemma loadWEPs_Inl:
  assumes "WorkloadEndpointsList cl (datastore c) = (Inr ws, ds)"
    and "\<exists>w \<in> set ws. isl (getWEPIPs L w)"
  shows "\<exists>w \<in> set ws. \<exists>e. getWEPIPs L w = Inl e \<and> fst (loadWEPs L cl c) = Some e"
proof -
  let ?c2 = "(emit (Println ''Loading all workload endpoints.'') c)\<lparr>datastore := ds\<rparr>"
  from wepsLoop_Inl [OF assms(2), of 0 ?c2] obtain w e
    where "w \<in> set ws" "getWEPIPs L w = Inl e" "fst (wepsLoop L ws 0 ?c2) = Inl e" by blast
  moreover from this(3) assms(1) have "fst (loadWEPs L cl c) = Some e"
    by (cases "wepsLoop L ws 0 ?c2") (simp add: loadWEPs_def Let_def)
  ultimately show ?thesis by blast
qed

lemma loadWEPs_total:
  assumes "WorkloadEndpointsList cl (datastore c) = (Inr ws, ds)"
    and "\<forall>w \<in> set ws. \<not> isl (getWEPIPs L w)"
  shows "\<exists>c'. loadWEPs L cl c = (None, c')"
proof -
  let ?c2 = "(emit (Println ''Loading all workload endpoints.'') c)\<lparr>datastore := ds\<rparr>"
  from wepsLoop_total [OF assms(2), of 0 ?c2] obtain k' c3
    where "wepsLoop L ws 0 ?c2 = (Inr k', c3)" by blast
  with assms(1) show ?thesis by (simp add: loadWEPs_def Let_def)
qed

subsection \<open>The two scans in closed form\<close>

lemma printLeaked_closed:
  "\<forall>a \<in> set allocs. \<not> isl (GetAttrString a) \<Longrightarrow>
   printLeaked ip allocs c =
     (None, c\<lparr>stdout := stdout c @ map (\<lambda>a. LeakedLine ip (attr_string a)) allocs\<rparr>)"
proof (induction allocs arbitrary: c)
  case Nil
  show ?case by simp
next
  case (Cons a allocs)
  then obtain s where s: "GetAttrString a = Inr s" by (cases "GetAttrString a") auto
  with Cons show ?case by (simp add: attr_string_def emit_def)
qed

lemma allocs_ok_stdout [simp]: "allocs_ok (c\<lparr>stdout := out\<rparr>) = allocs_ok c"
  by (simp add: allocs_ok_def)

lemma leaked_of_stdout [simp]: "leaked_of (c\<lparr>stdout := out\<rparr>) ks = leaked_of c ks"
  by (simp add: leaked_of_def)

lemma leakedLoop_closed:
  "allocs_ok c \<Longrightarrow>
   leakedLoop ks acc c =
     (Inr (acc @ leaked_of c ks),
      c\<lparr>stdout := stdout c @
           (if showProblemIPs c then concat (map (leaked_lines (allocations c)) (leaked_of c ks))
            else [])\<rparr>)"
proof (induction ks arbitrary: acc c)
  case Nil
  show ?case by (simp add: leaked_of_def)
next
  case (Cons ip ks)
  show ?case
  proof (cases "inUseIPs c ip = None")
    case False
    then obtain y where "inUseIPs c ip = Some y" by auto
    with Cons show ?thesis by (simp add: leaked_of_def)
  next
    case True
    show ?thesis
    proof (cases "showProblemIPs c")
      case False
      with True Cons show ?thesis by (simp add: leaked_of_def)
    next
      case sp: True
      let ?c1 = "c\<lparr>stdout := stdout c @ leaked_lines (allocations c) ip\<rparr>"
      from Cons.prems have "\<forall>a \<in> set (lookup_slice (allocations c) ip). \<not> isl (GetAttrString a)"
        by (simp add: allocs_ok_def)
      from printLeaked_closed [OF this]
      have pl: "printLeaked ip (lookup_slice (allocations c) ip) c = (None, ?c1)"
        by (simp add: leaked_lines_def)
      have ok1: "allocs_ok ?c1" using Cons.prems by simp
      from Cons.IH [OF ok1, of "acc @ [ip]"] True sp pl
      show ?thesis by (simp add: leaked_of_def)
    qed
  qed
qed

lemma printOwners_closed:
  "printOwners mk owners c = c\<lparr>stdout := stdout c @ map (\<lambda>owner. mk (FriendlyName owner)) owners\<rparr>"
  by (induction owners arbitrary: c) (simp_all add: emit_def)

lemma inUseLoop_closed:
  "inUseLoop L pools ks nonCalico missing c =
     ((nonCalico @ foreign_of L pools c ks, missing @ missing_of L pools c ks),
      c\<lparr>stdout := stdout c @
           (if showProblemIPs c
            then concat (map (in_use_lines L pools (allocations c) (inUseIPs c)) ks)
            else [])\<rparr>)"
proof (induction ks arbitrary: nonCalico missing c)
  case Nil
  show ?case by (simp add: foreign_of_def missing_of_def)
next
  case (Cons ip ks)
  show ?case
    by (simp add: Cons foreign_of_def missing_of_def in_use_lines_def in_pool_def Let_def
                  printOwners_closed emit_def)
qed

lemma classify_closed:
  assumes "allocs_ok c"
  shows "classify L ks1 ks2 pools c =
     (Inr \<lparr>activeIPPools = pools, allocatedButNotInUseIPs = leaked_of c ks1,
            nonCalicoIPs = foreign_of L pools c ks2,
            inUseButNotAllocatedIPs = missing_of L pools c ks2,
            numProblems = length (leaked_of c ks1) + length (foreign_of L pools c ks2)
                            + length (missing_of L pools c ks2)\<rparr>,
      c\<lparr>stdout := stdout c @ classify_lines L ks1 ks2 pools c\<rparr>)"
proof -
  let ?c1 = "emit (Println ''Scanning for IPs that are allocated but not actually in use...'') c"
  have ok: "allocs_ok ?c1" using assms by simp
  show ?thesis
    unfolding classify_def Let_def leakedLoop_closed [OF ok] inUseLoop_closed
    by (simp add: emit_def classify_lines_def leaked_of_def foreign_of_def missing_of_def)
qed

subsection \<open>The first half as a whole\<close>

lemma banner_fields [simp]:
  "allocations (banner c) = allocations c" "inUseIPs (banner c) = inUseIPs c"
  "showAllIPs (banner c) = showAllIPs c" "showProblemIPs (banner c) = showProblemIPs c"
  "datastore (banner c) = datastore c"
  by (simp_all add: banner_def)

lemma banner_load: "grows (load_line (showAllIPs c)) c (banner c)"
  by (simp add: banner_def grows_def load_line_def)

lemma allocs_ok_banner [simp]: "allocs_ok (banner c) = allocs_ok c"
  by (simp add: allocs_ok_def)

lemma allocs_ok_New [simp]: "allocs_ok (NewIPAMChecker ds showAll showProblem)"
  by (simp add: allocs_ok_def NewIPAMChecker_def lookup_slice_def)

lemma load_Inr:
  assumes "load L cl c = (Inr pools, c')"
  shows "\<exists>c1 c2 c3. loadBlocks L cl (banner c) = (None, c1) \<and> loadPools L cl c1 = (Inr pools, c2) \<and>
           loadNodes L cl c2 = (None, c3) \<and> loadWEPs L cl c3 = (None, c')"
proof -
  obtain r1 c1 where b: "loadBlocks L cl (banner c) = (r1, c1)"
    by (cases "loadBlocks L cl (banner c)")
  obtain r2 c2 where p: "loadPools L cl c1 = (r2, c2)" by (cases "loadPools L cl c1")
  obtain r3 c3 where n: "loadNodes L cl c2 = (r3, c3)" by (cases "loadNodes L cl c2")
  obtain r4 c4 where w: "loadWEPs L cl c3 = (r4, c4)" by (cases "loadWEPs L cl c3")
  from assms b have r1: "r1 = None" by (cases r1) (simp_all add: load_def)
  from assms b r1 p have r2: "r2 = Inr pools"
    by (cases r2) (simp_all add: load_def split: option.splits prod.splits)
  from assms b r1 p r2 n have r3: "r3 = None" by (cases r3) (simp_all add: load_def)
  from assms b r1 p r2 n r3 w have r4: "r4 = None \<and> c4 = c'"
    by (cases r4) (simp_all add: load_def)
  from b r1 p r2 n r3 w r4 show ?thesis by simp
qed

lemma load_grows:
  assumes "load L cl c = (r, c')"
  shows "grows (load_line (showAllIPs c)) c c'"
proof -
  obtain r1 c1 where b: "loadBlocks L cl (banner c) = (r1, c1)"
    by (cases "loadBlocks L cl (banner c)")
  have g1: "grows (load_line (showAllIPs c)) c c1"
    using banner_load [of c] loadBlocks_load [OF b] by (rule grows_load_step)
  show ?thesis
  proof (cases r1)
    case (Some e)
    with assms b have "c' = c1" by (simp add: load_def)
    with g1 show ?thesis by simp
  next
    case None
    obtain r2 c2 where p: "loadPools L cl c1 = (r2, c2)" by (cases "loadPools L cl c1")
    from g1 loadPools_load(1) [OF p]
    have g2: "grows (load_line (showAllIPs c)) c c2" by (rule grows_load_step)
    show ?thesis
    proof (cases r2)
      case (Inl e)
      with assms b None p have "c' = c2" by (simp add: load_def)
      with g2 show ?thesis by simp
    next
      case (Inr pools)
      obtain r3 c3 where n: "loadNodes L cl c2 = (r3, c3)" by (cases "loadNodes L cl c2")
      from g2 loadNodes_load(1) [OF n]
      have g3: "grows (load_line (showAllIPs c)) c c3" by (rule grows_load_step)
      show ?thesis
      proof (cases r3)
        case (Some e)
        with assms b None p Inr n have "c' = c3" by (simp add: load_def)
        with g3 show ?thesis by simp
      next
        case n3: None
        obtain r4 c4 where w: "loadWEPs L cl c3 = (r4, c4)" by (cases "loadWEPs L cl c3")
        from g3 loadWEPs_load(1) [OF w]
        have g4: "grows (load_line (showAllIPs c)) c c4" by (rule grows_load_step)
        from assms b None p Inr n n3 w have "c' = c4"
          by (cases r4) (simp_all add: load_def)
        with g4 show ?thesis by simp
      qed
    qed
  qed
qed

lemma load_allocs_ok:
  assumes "load L cl c = (Inr pools, c')" "allocs_ok c"
  shows "allocs_ok c'"
proof -
  from load_Inr [OF assms(1)] obtain c1 c2 c3
    where b: "loadBlocks L cl (banner c) = (None, c1)" and p: "loadPools L cl c1 = (Inr pools, c2)"
      and n: "loadNodes L cl c2 = (None, c3)" and w: "loadWEPs L cl c3 = (None, c')" by blast
  from loadBlocks_allocs_ok [OF b] assms(2) have "allocs_ok c1" by simp
  then have "allocs_ok c2" using allocs_ok_cong [OF loadPools_load(2) [OF p]] by simp
  then have "allocs_ok c3" using allocs_ok_cong [OF loadNodes_load(2) [OF n]] by simp
  then show ?thesis using allocs_ok_cong [OF loadWEPs_load(2) [OF w]] by simp
qed

subsection \<open>The check as a whole\<close>

lemma checkIPAM_closed:
  assumes "load L cl c = (Inr pools, c1)" "allocs_ok c"
  shows "checkIPAM L cl ks1 ks2 c =
     (Inr \<lparr>activeIPPools = pools, allocatedButNotInUseIPs = leaked_of c1 ks1,
            nonCalicoIPs = foreign_of L pools c1 ks2,
            inUseButNotAllocatedIPs = missing_of L pools c1 ks2,
            numProblems = length (leaked_of c1 ks1) + length (foreign_of L pools c1 ks2)
                            + length (missing_of L pools c1 ks2)\<rparr>,
      c1\<lparr>stdout := stdout c1 @ classify_lines L ks1 ks2 pools c1\<rparr>)"
  using assms(1) classify_closed [OF load_allocs_ok [OF assms]]
  by (simp add: checkIPAM_def)

lemma checkIPAM_Inl:
  "load L cl c = (Inl e, c1) \<Longrightarrow> checkIPAM L cl ks1 ks2 c = (Inl e, c1)"
  by (simp add: checkIPAM_def)

lemma in_pool_iff: "in_pool L pools ip \<longleftrightarrow> (\<exists>n \<in> set pools. Contains L n (ParseIP L ip))"
  by (simp add: in_pool_def list_ex_iff)

lemma set_leaked_of:
  "range_order (allocations c) ks \<Longrightarrow>
   set (leaked_of c ks) = {ip. ip \<in> dom (allocations c) \<and> ip \<notin> dom (inUseIPs c)}"
  by (auto simp: leaked_of_def range_order_def)

lemma set_foreign_of:
  "range_order (inUseIPs c) ks \<Longrightarrow>
   set (foreign_of L pools c ks) =
     {ip. ip \<in> dom (inUseIPs c) \<and> ip \<notin> dom (allocations c) \<and> \<not> in_pool L pools ip}"
  by (auto simp: foreign_of_def range_order_def)

lemma set_missing_of:
  "range_order (inUseIPs c) ks \<Longrightarrow>
   set (missing_of L pools c ks) =
     {ip. ip \<in> dom (inUseIPs c) \<and> ip \<notin> dom (allocations c) \<and> in_pool L pools ip}"
  by (auto simp: missing_of_def range_order_def)

lemma distinct_of:
  "range_order m ks \<Longrightarrow> distinct (leaked_of c ks) \<and> distinct (foreign_of L pools c ks) \<and>
     distinct (missing_of L pools c ks)"
  by (simp add: leaked_of_def foreign_of_def missing_of_def range_order_def)

lemma checkIPAM_Inr:
  assumes "checkIPAM L cl ks1 ks2 (NewIPAMChecker ds showAll showProblem) = (Inr r, c')"
  shows "\<exists>pools c. load L cl (NewIPAMChecker ds showAll showProblem) = (Inr pools, c) \<and>
           r = \<lparr>activeIPPools = pools, allocatedButNotInUseIPs = leaked_of c ks1,
                 nonCalicoIPs = foreign_of L pools c ks2,
                 inUseButNotAllocatedIPs = missing_of L pools c ks2,
                 numProblems = length (leaked_of c ks1) + length (foreign_of L pools c ks2)
                                 + length (missing_of L pools c ks2)\<rparr> \<and>
           c' = c\<lparr>stdout := stdout c @ classify_lines L ks1 ks2 pools c\<rparr>"
proof -
  obtain r0 c where l: "load L cl (NewIPAMChecker ds showAll showProblem) = (r0, c)"
    by (cases "load L cl (NewIPAMChecker ds showAll showProblem)")
  show ?thesis
  proof (cases r0)
    case (Inl e)
    with l assms show ?thesis by (simp add: checkIPAM_Inl)
  next
    case (Inr pools)
    with l have l': "load L cl (NewIPAMChecker ds showAll showProblem) = (Inr pools, c)" by simp
    from assms show ?thesis
      unfolding checkIPAM_closed [OF l' allocs_ok_New] using l' by simp
  qed
qed

lemma datastore_New [simp]: "datastore (NewIPAMChecker ds showAll showProblem) = ds"
  by (simp add: NewIPAMChecker_def)

lemma load_reserved:
  assumes "load L cl c0 = (Inr pools, c)" "BackendListBlocks cl (datastore c0) = (Inr bs, ds1)"
    and "b \<in> set bs"
    and "index (Allocations b) ord = Some (Some i)" "index (Attributes b) i = Some attrs"
    and "AttrPrimary attrs = Some (WindowsReservedHandle L)"
  shows "\<lparr>FriendlyName = ''Reserved for Windows'', Resource = BlockRef b\<rparr>
           \<in> set (lookup_slice (inUseIPs c) (IP_String L (OrdinalToIP L b ord)))"
proof -
  let ?ip = "IP_String L (OrdinalToIP L b ord)"
  let ?syn = "\<lparr>FriendlyName = ''Reserved for Windows'', Resource = BlockRef b\<rparr>"
  from load_Inr [OF assms(1)] obtain c1 c2 c3
    where b: "loadBlocks L cl (banner c0) = (None, c1)" and p: "loadPools L cl c1 = (Inr pools, c2)"
      and n: "loadNodes L cl c2 = (None, c3)" and w: "loadWEPs L cl c3 = (None, c)" by blast
  from assms(2) have "BackendListBlocks cl (datastore (banner c0)) = (Inr bs, ds1)" by simp
  from loadBlocks_reserved [OF b this assms(3,4,5,6)]
  have "?syn \<in> set (lookup_slice (inUseIPs c1) ?ip)" .
  then have "?syn \<in> set (lookup_slice (inUseIPs c2) ?ip)"
    using loadPools_load(3) [OF p] by simp
  then have "?syn \<in> set (lookup_slice (inUseIPs c3) ?ip)"
    using loadNodes_load(1) [OF n] unfolding grows_def by blast
  then show ?thesis
    using loadWEPs_load(1) [OF w] unfolding grows_def by blast
qed

lemma load_pools:
  assumes "load L cl c0 = (Inr pools, c)" "BackendListBlocks cl (datastore c0) = (bl, ds1)"
    and "IPPoolsList cl ds1 = (Inr ps, ds2)"
  shows "map (\<lambda>p. ParseCIDR L (Spec_CIDR p)) (filter (\<lambda>p. \<not> Spec_Disabled p) ps) = map Inr pools"
proof -
  from load_Inr [OF assms(1)] obtain c1 c2
    where b: "loadBlocks L cl (banner c0) = (None, c1)" and p: "loadPools L cl c1 = (Inr pools, c2)"
    by blast
  from loadBlocks_datastore [OF b] assms(2) have "datastore c1 = ds1" by simp
  with assms(3) have "IPPoolsList cl (datastore c1) = (Inr ps, ds2)" by simp
  from loadPools_Inr [OF p this] show ?thesis .
qed

lemma active_pool_enabled:
  assumes "map (\<lambda>p. ParseCIDR L (Spec_CIDR p)) (filter (\<lambda>p. \<not> Spec_Disabled p) ps) = map Inr pools"
    and "n \<in> set pools"
  shows "\<exists>p \<in> set ps. \<not> Spec_Disabled p \<and> ParseCIDR L (Spec_CIDR p) = Inr n"
proof -
  from assms(2) have "Inr n \<in> set (map Inr pools)" by simp
  with assms(1) have "Inr n \<in> set (map (\<lambda>p. ParseCIDR L (Spec_CIDR p))
                                     (filter (\<lambda>p. \<not> Spec_Disabled p) ps))" by simp
  then show ?thesis by auto
qed

subsection \<open>Parse failures\<close>

lemma normalise_fields_Inl_field:
  "normalise_fields L name fs ips = Inl e \<Longrightarrow>
   \<exists>field raw cause. e = ParseNodeIPFailed field raw name cause \<and>
     (field, raw) \<in> set fs \<and> normaliseIP L raw = Inl cause"
proof (induction fs arbitrary: ips)
  case Nil
  then show ?case by simp
next
  case (Cons f fs)
  obtain field raw where f: "f = (field, raw)" by (cases f)
  show ?case
  proof (cases "normaliseIP L raw")
    case (Inl err)
    with Cons.prems f show ?thesis by auto
  next
    case (Inr ip)
    with Cons.prems f have "normalise_fields L name fs (ips @ [ip]) = Inl e" by simp
    from Cons.IH [OF this] show ?thesis by auto
  qed
qed

lemma getNodeIPs_Inl_field:
  assumes "getNodeIPs L n = Inl e"
  shows "\<exists>field raw cause. e = ParseNodeIPFailed field raw (Name n) cause \<and>
           (field, raw) \<in> set (node_fields n) \<and> normaliseIP L raw = Inl cause"
  using normalise_fields_Inl_field [of L "Name n" "node_fields n" "[]" e] assms
  by (simp only: getNodeIPs_fields)

lemma getNodeIPs_isl_field:
  "isl (getNodeIPs L n) \<longleftrightarrow> (\<exists>fa \<in> set (node_fields n). isl (normaliseIP L (snd fa)))"
  by (simp only: getNodeIPs_fields normalise_fields_isl) auto

lemma getWEPIPs_isl_Bex:
  "isl (getWEPIPs L w) \<longleftrightarrow> (\<exists>a \<in> set (IPNetworks w). isl (normaliseIP L a))"
  by (auto simp: getWEPIPs_isl)

lemma stdout_New [simp]: "stdout (NewIPAMChecker ds showAll showProblem) = []"
  by (simp add: NewIPAMChecker_def)

lemma showAllIPs_New [simp]: "showAllIPs (NewIPAMChecker ds showAll showProblem) = showAll"
  by (simp add: NewIPAMChecker_def)

lemma showProblemIPs_New [simp]: "showProblemIPs (NewIPAMChecker ds showAll showProblem) = showProblem"
  by (simp add: NewIPAMChecker_def)

lemma load_stdout:
  assumes "load L cl (NewIPAMChecker ds showAll showProblem) = (r, c)"
  shows "list_all (load_line showAll) (stdout c)"
  using load_grows [OF assms] by (auto simp: grows_def)

lemma load_line_no_report:
  "list_all (load_line showAll) out \<Longrightarrow> \<not> list_ex (\<lambda>l. problem_line l \<or> summary_line l) out"
  by (auto simp: list_all_iff list_ex_iff load_line_def)

subsection \<open>The datastore\<close>

lemma printLeaked_datastore:
  "printLeaked ip allocs c = (r, c') \<Longrightarrow> datastore c' = datastore c"
  by (induction allocs arbitrary: c) (auto split: sum.splits)

lemma leakedLoop_datastore:
  "leakedLoop ks acc c = (r, c') \<Longrightarrow> datastore c' = datastore c"
proof (induction ks arbitrary: acc c)
  case Nil
  then show ?case by simp
next
  case (Cons ip ks)
  show ?case
  proof (cases "inUseIPs c ip = None")
    case False
    with Cons show ?thesis by simp
  next
    case True
    obtain r1 c1 where p: "(if showProblemIPs c
        then printLeaked ip (lookup_slice (allocations c) ip) c else (None, c)) = (r1, c1)"
      by (cases "if showProblemIPs c
        then printLeaked ip (lookup_slice (allocations c) ip) c else (None, c)")
    then have d1: "datastore c1 = datastore c"
      by (auto split: if_splits dest: printLeaked_datastore)
    show ?thesis
    proof (cases r1)
      case None
      with Cons.prems True p have "leakedLoop ks (acc @ [ip]) c1 = (r, c')" by simp
      from Cons.IH [OF this] d1 show ?thesis by simp
    next
      case (Some e)
      with Cons.prems True p have "c' = c1" by simp
      with d1 show ?thesis by simp
    qed
  qed
qed

lemma classify_datastore:
  assumes "classify L ks1 ks2 pools c = (r, c')"
  shows "datastore c' = datastore c"
proof -
  let ?c1 = "emit (Println ''Scanning for IPs that are allocated but not actually in use...'') c"
  obtain r2 c2 where l: "leakedLoop ks1 [] ?c1 = (r2, c2)" by (cases "leakedLoop ks1 [] ?c1")
  from leakedLoop_datastore [OF l] have d2: "datastore c2 = datastore c" by simp
  show ?thesis
  proof (cases r2)
    case (Inl e)
    with assms l have "c' = c2" by (simp add: classify_def Let_def)
    with d2 show ?thesis by simp
  next
    case (Inr leaked)
    with assms l d2 show ?thesis
      by (auto simp: classify_def Let_def inUseLoop_closed)
  qed
qed

lemma load_datastore:
  assumes "read_only cl" "load L cl c = (r, c')"
  shows "datastore c' = datastore c"
proof -
  obtain r1 c1 where b: "loadBlocks L cl (banner c) = (r1, c1)"
    by (cases "loadBlocks L cl (banner c)")
  from loadBlocks_datastore [OF b] assms(1) have d1: "datastore c1 = datastore c"
    by (simp add: read_only_def)
  show ?thesis
  proof (cases r1)
    case (Some e)
    with assms(2) b have "c' = c1" by (simp add: load_def)
    with d1 show ?thesis by simp
  next
    case None
    obtain r2 c2 where p: "loadPools L cl c1 = (r2, c2)" by (cases "loadPools L cl c1")
    from loadPools_load(4) [OF p] assms(1) d1 have d2: "datastore c2 = datastore c"
      by (simp add: read_only_def)
    show ?thesis
    proof (cases r2)
      case (Inl e)
      with assms(2) b None p have "c' = c2" by (simp add: load_def)
      with d2 show ?thesis by simp
    next
      case (Inr pools)
      obtain r3 c3 where n: "loadNodes L cl c2 = (r3, c3)" by (cases "loadNodes L cl c2")
      from loadNodes_load(3) [OF n] assms(1) d2 have d3: "datastore c3 = datastore c"
        by (simp add: read_only_def)
      show ?thesis
      proof (cases r3)
        case (Some e)
        with assms(2) b None p Inr n have "c' = c3" by (simp add: load_def)
        with d3 show ?thesis by simp
      next
        case n3: None
        obtain r4 c4 where w: "loadWEPs L cl c3 = (r4, c4)" by (cases "loadWEPs L cl c3")
        from loadWEPs_load(3) [OF w] assms(1) d3 have d4: "datastore c4 = datastore c"
          by (simp add: read_only_def)
        from assms(2) b None p Inr n n3 w have "c' = c4"
          by (cases r4) (simp_all add: load_def)
        with d4 show ?thesis by simp
      qed
    qed
  qed
qed

lemma read_only_snapshot_client: "read_only snapshot_client"
  by (simp add: read_only_def snapshot_client_def)

subsection \<open>The classes of the printed lines\<close>

lemma classify_lines_class:
  "list_all (classify_line (showProblemIPs c)) (classify_lines L ks1 ks2 pools c)"
  by (auto simp: classify_lines_def classify_line_def list_all_iff leaked_lines_def
        in_use_lines_def)

lemma checkIPAM_New_stdout:
  assumes "checkIPAM L cl ks1 ks2 (NewIPAMChecker ds showAll showProblem) = (r, c')"
  shows "\<exists>out1 out2. stdout c' = out1 @ out2 \<and> list_all (load_line showAll) out1 \<and>
           list_all (classify_line showProblem) out2"
proof -
  let ?c0 = "NewIPAMChecker ds showAll showProblem"
  obtain r1 c1 where l: "load L cl ?c0 = (r1, c1)" by (cases "load L cl ?c0")
  note out1 = load_stdout [OF l]
  show ?thesis
  proof (cases r1)
    case (Inl e)
    with l assms have "c' = c1" by (simp add: checkIPAM_Inl)
    with out1 have "stdout c' = stdout c1 @ [] \<and> list_all (load_line showAll) (stdout c1) \<and>
           list_all (classify_line showProblem) []" by simp
    then show ?thesis by blast
  next
    case (Inr pools)
    with l have l': "load L cl ?c0 = (Inr pools, c1)" by simp
    from load_grows [OF l'] have sp: "showProblemIPs c1 = showProblem" by (simp add: grows_def)
    from assms have "c' = c1\<lparr>stdout := stdout c1 @ classify_lines L ks1 ks2 pools c1\<rparr>"
      unfolding checkIPAM_closed [OF l' allocs_ok_New] by simp
    then have "stdout c' = stdout c1 @ classify_lines L ks1 ks2 pools c1" by simp
    with out1 classify_lines_class [of c1 L ks1 ks2 pools] sp show ?thesis by auto
  qed
qed

subsection \<open>Completion of the first half\<close>

lemma load_total:
  assumes "BackendListBlocks cl (datastore c0) = (Inr bs, ds1)"
    and "IPPoolsList cl ds1 = (Inr ps, ds2)"
    and "NodesList cl ds2 = (Inr ns, ds3)"
    and "WorkloadEndpointsList cl ds3 = (Inr ws, ds4)"
    and "\<forall>b \<in> set bs. block_indices_ok b"
    and "\<forall>p \<in> set ps. \<not> Spec_Disabled p \<longrightarrow> \<not> isl (ParseCIDR L (Spec_CIDR p))"
    and "\<forall>n \<in> set ns. \<forall>fa \<in> set (node_fields n). \<not> isl (normaliseIP L (snd fa))"
    and "\<forall>w \<in> set ws. \<forall>a \<in> set (IPNetworks w). \<not> isl (normaliseIP L a)"
  shows "\<exists>pools c. load L cl c0 = (Inr pools, c) \<and> datastore c = ds4"
proof -
  from assms(1) have "BackendListBlocks cl (datastore (banner c0)) = (Inr bs, ds1)" by simp
  from loadBlocks_total [OF this assms(5)] obtain c1
    where b: "loadBlocks L cl (banner c0) = (None, c1)" by blast
  from loadBlocks_datastore [OF b] assms(1) have d1: "datastore c1 = ds1" by simp
  with assms(2) have "IPPoolsList cl (datastore c1) = (Inr ps, ds2)" by simp
  from loadPools_total [OF this assms(6)] obtain pools c2
    where p: "loadPools L cl c1 = (Inr pools, c2)" by blast
  from loadPools_load(4) [OF p] d1 assms(2) have d2: "datastore c2 = ds2" by simp
  with assms(3) have nl: "NodesList cl (datastore c2) = (Inr ns, ds3)" by simp
  from assms(7) have "\<forall>n \<in> set ns. \<not> isl (getNodeIPs L n)" by (simp add: getNodeIPs_isl_field)
  from loadNodes_total [OF nl this] obtain c3
    where n: "loadNodes L cl c2 = (None, c3)" by blast
  from loadNodes_load(3) [OF n] nl have d3: "datastore c3 = ds3" by simp
  with assms(4) have wl: "WorkloadEndpointsList cl (datastore c3) = (Inr ws, ds4)" by simp
  from assms(8) have "\<forall>w \<in> set ws. \<not> isl (getWEPIPs L w)" by (simp add: getWEPIPs_isl_Bex)
  from loadWEPs_total [OF wl this] obtain c4
    where w: "loadWEPs L cl c3 = (None, c4)" by blast
  from loadWEPs_load(3) [OF w] wl have d4: "datastore c4 = ds4" by simp
  from b p n w have "load L cl c0 = (Inr pools, c4)" by (simp add: load_def)
  with d4 show ?thesis by blast
qed

subsection \<open>Independence of the orders of iteration\<close>

lemma sort_keys_unique:
  assumes "distinct xs" "distinct ys" "set xs = set (ys :: string list)"
  shows "sort xs = sort ys"
  by (rule sorted_distinct_set_unique) (simp_all add: assms)

lemma formatAttrs_map_of:
  assumes "AttrPrimary a = AttrPrimary a'" "map_of (AttrSecondary a) = map_of (AttrSecondary a')"
    and "distinct (map fst (AttrSecondary a))" "distinct (map fst (AttrSecondary a'))"
  shows "formatAttrs a = formatAttrs a'"
proof -
  have "set (map fst (AttrSecondary a)) = dom (map_of (AttrSecondary a))"
    "set (map fst (AttrSecondary a')) = dom (map_of (AttrSecondary a'))"
    by (simp_all add: dom_map_of_conv_image_fst)
  with assms(2) have "set (map fst (AttrSecondary a)) = set (map fst (AttrSecondary a'))" by simp
  from sort_keys_unique [OF assms(3,4) this] assms(1,2) show ?thesis
    by (simp add: formatAttrs_def)
qed

lemma formatAttrs_sorted:
  "\<exists>ks. sorted ks \<and> set ks = fst ` set (AttrSecondary a) \<and>
     formatAttrs a =
       ''Main:'' @ (case AttrPrimary a of None \<Rightarrow> ''<none>'' | Some p \<Rightarrow> p) @ '' Extra:'' @
       Join (map (\<lambda>k. k @ ''='' @
                   (case map_of (AttrSecondary a) k of None \<Rightarrow> [] | Some v \<Rightarrow> v)) ks) '',''"
  by (rule exI [of _ "sort (map fst (AttrSecondary a))"]) (simp add: formatAttrs_def)

lemma range_order_mset: "range_order m ks \<Longrightarrow> range_order m ks' \<Longrightarrow> mset ks = mset ks'"
  by (metis range_order_def set_eq_iff_mset_eq_distinct)

lemma mset_concat_map:
  assumes "mset xs = mset ys"
  shows "mset (concat (map f xs)) = mset (concat (map f ys))"
proof -
  have "mset (concat (map f zs)) = \<Sum>\<^sub># (image_mset (\<lambda>z. mset (f z)) (mset zs))" for zs
    by (induction zs) simp_all
  with assms show ?thesis by simp
qed

lemma of_mset:
  assumes "mset ks = mset ks'"
  shows "mset (leaked_of c ks) = mset (leaked_of c ks')"
    and "mset (foreign_of L pools c ks) = mset (foreign_of L pools c ks')"
    and "mset (missing_of L pools c ks) = mset (missing_of L pools c ks')"
  using assms by (simp_all add: leaked_of_def foreign_of_def missing_of_def)

lemma classify_lines_mset:
  assumes "mset ks1 = mset ks1'" "mset ks2 = mset ks2'"
  shows "mset (classify_lines L ks1 ks2 pools c) = mset (classify_lines L ks1' ks2' pools c)"
proof -
  have m: "mset (leaked_of c ks1) = mset (leaked_of c ks1')"
    "mset (foreign_of L pools c ks2) = mset (foreign_of L pools c ks2')"
    "mset (missing_of L pools c ks2) = mset (missing_of L pools c ks2')"
    by (rule of_mset(1) [OF assms(1)], rule of_mset(2) [OF assms(2)], rule of_mset(3) [OF assms(2)])
  have l: "length (leaked_of c ks1) = length (leaked_of c ks1')"
    "length (foreign_of L pools c ks2) = length (foreign_of L pools c ks2')"
    "length (missing_of L pools c ks2) = length (missing_of L pools c ks2')"
    by (rule mset_eq_length [OF m(1)], rule mset_eq_length [OF m(2)], rule mset_eq_length [OF m(3)])
  have c1: "mset (concat (map (leaked_lines (allocations c)) (leaked_of c ks1)))
          = mset (concat (map (leaked_lines (allocations c)) (leaked_of c ks1')))"
    by (rule mset_concat_map) (rule m(1))
  have c2: "mset (concat (map (in_use_lines L pools (allocations c) (inUseIPs c)) ks2))
          = mset (concat (map (in_use_lines L pools (allocations c) (inUseIPs c)) ks2'))"
    by (rule mset_concat_map) (rule assms)
  show ?thesis
    unfolding classify_lines_def using l c1 c2 by simp
qed

lemma classify_lines_quiet:
  assumes "mset ks1 = mset ks1'" "mset ks2 = mset ks2'" "\<not> showProblemIPs c"
  shows "classify_lines L ks1 ks2 pools c = classify_lines L ks1' ks2' pools c"
proof -
  have m: "mset (leaked_of c ks1) = mset (leaked_of c ks1')"
    "mset (foreign_of L pools c ks2) = mset (foreign_of L pools c ks2')"
    "mset (missing_of L pools c ks2) = mset (missing_of L pools c ks2')"
    by (rule of_mset(1) [OF assms(1)], rule of_mset(2) [OF assms(2)], rule of_mset(3) [OF assms(2)])
  have l: "length (leaked_of c ks1) = length (leaked_of c ks1')"
    "length (foreign_of L pools c ks2) = length (foreign_of L pools c ks2')"
    "length (missing_of L pools c ks2) = length (missing_of L pools c ks2')"
    by (rule mset_eq_length [OF m(1)], rule mset_eq_length [OF m(2)], rule mset_eq_length [OF m(3)])
  show ?thesis
    unfolding classify_lines_def using l assms(3) by simp
qed

subsection \<open>The examples, evaluated\<close>

lemmas ipv4_eval = ipv4_lib_def parse_cidr_def parse_ipv4_def parse_dec_def digit_val_def
  ipv4_string_def showd.simps snapshot_client_def

lemmas check_eval = Check_def checkIPAM_def load_def banner_def classify_def loadBlocks_def loadPools_def
  loadNodes_def loadWEPs_def NewIPAMChecker_def emit_def recordAllocation_def recordInUseIP_def
  GetAttrString_def formatAttrs_def index_def enumerate_slice_def lookup_slice_def
  getNodeIPs_def getWEPIPs_def normaliseIP_def Let_def

lemma GetAttrString_missing:
  "index (Allocations (Block a)) (Ordinal a) = Some (Some i) \<Longrightarrow>
   int (length (Attributes (Block a))) \<le> i \<Longrightarrow> GetAttrString a = Inr ''<missing>''"
  by (simp add: GetAttrString_def)

lemmas example_eval = example_store_def example_block_def example_node_def example_wep_def

lemma example_load_result:
  "load ipv4_lib snapshot_client (NewIPAMChecker example_store False True) =
     (Inr [(167772160, 24)],
      \<lparr>allocations = [''10.0.0.0'' \<mapsto> [\<lparr>Block = example_block, Ordinal = 0\<rparr>],
                      ''10.0.0.1'' \<mapsto> [\<lparr>Block = example_block, Ordinal = 1\<rparr>],
                      ''10.0.0.5'' \<mapsto> [\<lparr>Block = example_block, Ordinal = 5\<rparr>]],
       inUseIPs = [''10.0.0.0'' \<mapsto> [\<lparr>FriendlyName = ''Reserved for Windows'',
                                         Resource = BlockRef example_block\<rparr>],
                   ''10.0.0.9'' \<mapsto> [\<lparr>FriendlyName = ''Node(n1)'', Resource = NodeRef example_node\<rparr>],
                   ''192.168.99.9'' \<mapsto> [\<lparr>FriendlyName = ''Workload(ns/w1)'',
                                            Resource = WEPRef example_wep\<rparr>],
                   ''10.0.0.1'' \<mapsto> [\<lparr>FriendlyName = ''Workload(ns/w1)'',
                                        Resource = WEPRef example_wep\<rparr>]],
       showAllIPs = False, showProblemIPs = True, datastore = example_store,
       stdout = [Println ''Checking IPAM for inconsistencies...'', Println [],
                 Println ''Loading all IPAM blocks...'', FoundBlocks 1,
                 BlockLine ''10.0.0.0/29'' ''host:n1'', RecordAllocs 3, Println [],
                 Println ''Loading all IPAM pools...'', PoolLine ''10.0.0.0/24'', FoundPools 1,
                 Println [],
                 Println ''Loading all nodes.'', FoundNodeIPs 1, Println [],
                 Println ''Loading all workload endpoints.'', FoundWorkloadIPs 2, UsingIPs 4,
                 Println []]\<rparr>)"
  by (simp add: check_eval ipv4_eval example_eval)


lemma example_load:
  "load ipv4_lib snapshot_client (NewIPAMChecker example_store False True) =
     (Inr [(167772160, 24)], example_loaded)"
  unfolding example_loaded_def example_load_result by simp

lemma example_allocations:
  "allocations example_loaded =
     [''10.0.0.0'' \<mapsto> [\<lparr>Block = example_block, Ordinal = 0\<rparr>],
      ''10.0.0.1'' \<mapsto> [\<lparr>Block = example_block, Ordinal = 1\<rparr>],
      ''10.0.0.5'' \<mapsto> [\<lparr>Block = example_block, Ordinal = 5\<rparr>]]"
  unfolding example_loaded_def example_load_result by simp

lemma example_inUseIPs:
  "inUseIPs example_loaded =
     [''10.0.0.0'' \<mapsto> [\<lparr>FriendlyName = ''Reserved for Windows'',
                           Resource = BlockRef example_block\<rparr>],
      ''10.0.0.9'' \<mapsto> [\<lparr>FriendlyName = ''Node(n1)'', Resource = NodeRef example_node\<rparr>],
      ''192.168.99.9'' \<mapsto> [\<lparr>FriendlyName = ''Workload(ns/w1)'', Resource = WEPRef example_wep\<rparr>],
      ''10.0.0.1'' \<mapsto> [\<lparr>FriendlyName = ''Workload(ns/w1)'', Resource = WEPRef example_wep\<rparr>]]"
  unfolding example_loaded_def example_load_result by simp

lemma example_order1:
  "range_order (allocations example_loaded) [''10.0.0.0'', ''10.0.0.1'', ''10.0.0.5'']"
  by (simp add: range_order_def example_allocations) blast

lemma example_order2:
  "range_order (inUseIPs example_loaded)
     [''10.0.0.0'', ''10.0.0.9'', ''192.168.99.9'', ''10.0.0.1'']"
  by (simp add: range_order_def example_inUseIPs) blast

lemma example_pool_contains:
  "Contains ipv4_lib (167772160, 24) (ParseIP ipv4_lib ''10.0.0.9'')"
  "\<not> Contains ipv4_lib (167772160, 24) (ParseIP ipv4_lib ''192.168.99.9'')"
  by (simp_all add: ipv4_eval)

lemma last_classify_lines:
  "last (out @ classify_lines L ks1 ks2 pools c) =
     CheckComplete (length (leaked_of c ks1) + length (foreign_of L pools c ks2)
                      + length (missing_of L pools c ks2))"
  by (simp add: classify_lines_def)

lemma example_run:
  "checkIPAM ipv4_lib snapshot_client ks1 ks2 (NewIPAMChecker example_store False True) =
     (Inr \<lparr>activeIPPools = [(167772160, 24)],
            allocatedButNotInUseIPs = leaked_of example_loaded ks1,
            nonCalicoIPs = foreign_of ipv4_lib [(167772160, 24)] example_loaded ks2,
            inUseButNotAllocatedIPs = missing_of ipv4_lib [(167772160, 24)] example_loaded ks2,
            numProblems = length (leaked_of example_loaded ks1)
              + length (foreign_of ipv4_lib [(167772160, 24)] example_loaded ks2)
              + length (missing_of ipv4_lib [(167772160, 24)] example_loaded ks2)\<rparr>,
      example_loaded\<lparr>stdout := stdout example_loaded
         @ classify_lines ipv4_lib ks1 ks2 [(167772160, 24)] example_loaded\<rparr>)"
  by (rule checkIPAM_closed [OF example_load allocs_ok_New])

lemma example_flags: "showProblemIPs example_loaded" "\<not> showAllIPs example_loaded"
  unfolding example_loaded_def example_load_result by simp_all

section \<open>The claims\<close>

text \<open>
  C1.  After a successful load the classification completes, leaves both indexes as they
  are, and for every address: it is in the leaked list exactly when it is a key of the
  Allocation Index and not of the Usage Index; in the foreign list exactly when it is a
  key of the Usage Index, not of the Allocation Index, and no active pool contains it; in
  the missing-allocation list exactly when it is a key of the Usage Index, not of the
  Allocation Index, and some active pool contains it.
\<close>

theorem C1_classification:
  assumes "load L cl (NewIPAMChecker ds showAll showProblem) = (Inr pools, c)"
    and "range_order (allocations c) ks1" and "range_order (inUseIPs c) ks2"
  shows "\<exists>r c'. checkIPAM L cl ks1 ks2 (NewIPAMChecker ds showAll showProblem) = (Inr r, c') \<and>
           allocations c' = allocations c \<and> inUseIPs c' = inUseIPs c \<and> activeIPPools r = pools \<and>
           (\<forall>ip. (ip \<in> set (allocatedButNotInUseIPs r) \<longleftrightarrow>
                    ip \<in> dom (allocations c) \<and> ip \<notin> dom (inUseIPs c)) \<and>
                 (ip \<in> set (nonCalicoIPs r) \<longleftrightarrow>
                    ip \<in> dom (inUseIPs c) \<and> ip \<notin> dom (allocations c) \<and>
                    \<not> (\<exists>n \<in> set pools. Contains L n (ParseIP L ip))) \<and>
                 (ip \<in> set (inUseButNotAllocatedIPs r) \<longleftrightarrow>
                    ip \<in> dom (inUseIPs c) \<and> ip \<notin> dom (allocations c) \<and>
                    (\<exists>n \<in> set pools. Contains L n (ParseIP L ip))))"
proof -
  let ?r = "\<lparr>activeIPPools = pools, allocatedButNotInUseIPs = leaked_of c ks1,
             nonCalicoIPs = foreign_of L pools c ks2,
             inUseButNotAllocatedIPs = missing_of L pools c ks2,
             numProblems = length (leaked_of c ks1) + length (foreign_of L pools c ks2)
                             + length (missing_of L pools c ks2)\<rparr>"
  let ?c' = "c\<lparr>stdout := stdout c @ classify_lines L ks1 ks2 pools c\<rparr>"
  have run: "checkIPAM L cl ks1 ks2 (NewIPAMChecker ds showAll showProblem) = (Inr ?r, ?c')"
    by (rule checkIPAM_closed [OF assms(1) allocs_ok_New])
  have cls: "\<forall>ip. (ip \<in> set (allocatedButNotInUseIPs ?r) \<longleftrightarrow>
                    ip \<in> dom (allocations c) \<and> ip \<notin> dom (inUseIPs c)) \<and>
                 (ip \<in> set (nonCalicoIPs ?r) \<longleftrightarrow>
                    ip \<in> dom (inUseIPs c) \<and> ip \<notin> dom (allocations c) \<and>
                    \<not> (\<exists>n \<in> set pools. Contains L n (ParseIP L ip))) \<and>
                 (ip \<in> set (inUseButNotAllocatedIPs ?r) \<longleftrightarrow>
                    ip \<in> dom (inUseIPs c) \<and> ip \<notin> dom (allocations c) \<and>
                    (\<exists>n \<in> set pools. Contains L n (ParseIP L ip)))"
    by (simp add: set_leaked_of [OF assms(2)] set_foreign_of [OF assms(3)]
          set_missing_of [OF assms(3)] in_pool_iff)
  have "allocations ?c' = allocations c \<and> inUseIPs ?c' = inUseIPs c \<and> activeIPPools ?r = pools"
    by simp
  with run cls show ?thesis
    by (intro exI [of _ ?r] exI [of _ ?c'] conjI) simp_all
qed

theorem C1_classification_witness:
  "\<exists>r c'. checkIPAM ipv4_lib snapshot_client [''10.0.0.0'', ''10.0.0.1'', ''10.0.0.5'']
             [''10.0.0.0'', ''10.0.0.9'', ''192.168.99.9'', ''10.0.0.1'']
             (NewIPAMChecker example_store False True) = (Inr r, c') \<and>
          ''10.0.0.5'' \<in> set (allocatedButNotInUseIPs r) \<and>
          ''10.0.0.1'' \<notin> set (allocatedButNotInUseIPs r) \<and>
          ''192.168.99.9'' \<in> set (nonCalicoIPs r) \<and>
          ''10.0.0.9'' \<notin> set (nonCalicoIPs r) \<and>
          ''10.0.0.9'' \<in> set (inUseButNotAllocatedIPs r) \<and>
          ''192.168.99.9'' \<notin> set (inUseButNotAllocatedIPs r)"
proof -
  from C1_classification [OF example_load example_order1 example_order2]
  obtain r c' where run: "checkIPAM ipv4_lib snapshot_client [''10.0.0.0'', ''10.0.0.1'', ''10.0.0.5'']
             [''10.0.0.0'', ''10.0.0.9'', ''192.168.99.9'', ''10.0.0.1'']
             (NewIPAMChecker example_store False True) = (Inr r, c')"
    and cls: "\<And>ip. (ip \<in> set (allocatedButNotInUseIPs r) \<longleftrightarrow>
                    ip \<in> dom (allocations example_loaded) \<and> ip \<notin> dom (inUseIPs example_loaded)) \<and>
                 (ip \<in> set (nonCalicoIPs r) \<longleftrightarrow>
                    ip \<in> dom (inUseIPs example_loaded) \<and> ip \<notin> dom (allocations example_loaded) \<and>
                    \<not> (\<exists>n \<in> set [(167772160, 24)]. Contains ipv4_lib n (ParseIP ipv4_lib ip))) \<and>
                 (ip \<in> set (inUseButNotAllocatedIPs r) \<longleftrightarrow>
                    ip \<in> dom (inUseIPs example_loaded) \<and> ip \<notin> dom (allocations example_loaded) \<and>
                    (\<exists>n \<in> set [(167772160, 24)]. Contains ipv4_lib n (ParseIP ipv4_lib ip)))"
    by blast
  have "''10.0.0.5'' \<in> set (allocatedButNotInUseIPs r)"
    "''10.0.0.1'' \<notin> set (allocatedButNotInUseIPs r)"
    using cls [of "''10.0.0.5''"] cls [of "''10.0.0.1''"]
    by (simp_all add: example_allocations example_inUseIPs)
  moreover have "''192.168.99.9'' \<in> set (nonCalicoIPs r)"
    "''192.168.99.9'' \<notin> set (inUseButNotAllocatedIPs r)"
    using cls [of "''192.168.99.9''"]
    by (simp_all add: example_allocations example_inUseIPs example_pool_contains)
  moreover have "''10.0.0.9'' \<notin> set (nonCalicoIPs r)"
    "''10.0.0.9'' \<in> set (inUseButNotAllocatedIPs r)"
    using cls [of "''10.0.0.9''"]
    by (simp_all add: example_allocations example_inUseIPs example_pool_contains)
  ultimately show ?thesis using run by blast
qed

text \<open>
  C2.  After a successful load the check completes; the total it prints in its last line
  is the number of leaked addresses plus the number of foreign addresses plus the number
  of missing-allocation addresses, each being the size of the set that defines the
  category.  The count of addresses with several owners is no part of the sum.  The
  three lists taken together hold no address twice, so the three categories are pairwise
  disjoint and no address is counted more than once; an address that is in both indexes
  is counted in no category, however many owners it has.
\<close>

theorem C2_total:
  assumes "load L cl (NewIPAMChecker ds showAll showProblem) = (Inr pools, c)"
    and "range_order (allocations c) ks1" and "range_order (inUseIPs c) ks2"
  shows "\<exists>r c'. checkIPAM L cl ks1 ks2 (NewIPAMChecker ds showAll showProblem) = (Inr r, c') \<and>
           last (stdout c') = CheckComplete (numProblems r) \<and>
           numProblems r =
             card {ip. ip \<in> dom (allocations c) \<and> ip \<notin> dom (inUseIPs c)} +
             card {ip. ip \<in> dom (inUseIPs c) \<and> ip \<notin> dom (allocations c) \<and>
                       \<not> (\<exists>n \<in> set pools. Contains L n (ParseIP L ip))} +
             card {ip. ip \<in> dom (inUseIPs c) \<and> ip \<notin> dom (allocations c) \<and>
                       (\<exists>n \<in> set pools. Contains L n (ParseIP L ip))} \<and>
           numProblems r = length (allocatedButNotInUseIPs r) + length (nonCalicoIPs r)
                             + length (inUseButNotAllocatedIPs r) \<and>
           distinct (allocatedButNotInUseIPs r @ nonCalicoIPs r @ inUseButNotAllocatedIPs r) \<and>
           (\<forall>ip. ip \<in> dom (allocations c) \<and> ip \<in> dom (inUseIPs c) \<longrightarrow>
                 ip \<notin> set (allocatedButNotInUseIPs r @ nonCalicoIPs r
                              @ inUseButNotAllocatedIPs r))"
proof -
  let ?l = "leaked_of c ks1" and ?f = "foreign_of L pools c ks2" and ?m = "missing_of L pools c ks2"
  let ?r = "\<lparr>activeIPPools = pools, allocatedButNotInUseIPs = ?l, nonCalicoIPs = ?f,
             inUseButNotAllocatedIPs = ?m, numProblems = length ?l + length ?f + length ?m\<rparr>"
  let ?c' = "c\<lparr>stdout := stdout c @ classify_lines L ks1 ks2 pools c\<rparr>"
  have run: "checkIPAM L cl ks1 ks2 (NewIPAMChecker ds showAll showProblem) = (Inr ?r, ?c')"
    by (rule checkIPAM_closed [OF assms(1) allocs_ok_New])
  note sl = set_leaked_of [OF assms(2)] and sf = set_foreign_of [OF assms(3), of L pools]
    and sm = set_missing_of [OF assms(3), of L pools]
  have d: "distinct ?l" "distinct ?f" "distinct ?m"
    using distinct_of [OF assms(2), of c L pools] distinct_of [OF assms(3), of c L pools]
    by simp_all
  have cl: "length ?l = card {ip. ip \<in> dom (allocations c) \<and> ip \<notin> dom (inUseIPs c)}"
    using distinct_card [OF d(1)] by (simp add: sl)
  have cf: "length ?f = card {ip. ip \<in> dom (inUseIPs c) \<and> ip \<notin> dom (allocations c) \<and>
                       \<not> (\<exists>n \<in> set pools. Contains L n (ParseIP L ip))}"
    using distinct_card [OF d(2)] by (simp add: sf in_pool_iff)
  have cm: "length ?m = card {ip. ip \<in> dom (inUseIPs c) \<and> ip \<notin> dom (allocations c) \<and>
                       (\<exists>n \<in> set pools. Contains L n (ParseIP L ip))}"
    using distinct_card [OF d(3)] by (simp add: sm in_pool_iff)
  have dis: "distinct (?l @ ?f @ ?m)"
    using d by (auto simp: sl sf sm)
  have both: "\<forall>ip. ip \<in> dom (allocations c) \<and> ip \<in> dom (inUseIPs c) \<longrightarrow>
                 ip \<notin> set (?l @ ?f @ ?m)"
    by (auto simp: sl sf sm)
  have lst: "last (stdout ?c') = CheckComplete (numProblems ?r)"
    by (simp add: last_classify_lines)
  show ?thesis
    using run lst cl cf cm dis both
    by (intro exI [of _ ?r] exI [of _ ?c'] conjI) simp_all
qed

theorem C2_total_witness:
  "\<exists>r c'. checkIPAM ipv4_lib snapshot_client [''10.0.0.0'', ''10.0.0.1'', ''10.0.0.5'']
             [''10.0.0.0'', ''10.0.0.9'', ''192.168.99.9'', ''10.0.0.1'']
             (NewIPAMChecker example_store False True) = (Inr r, c') \<and>
          last (stdout c') = CheckComplete (numProblems r) \<and>
          numProblems r = 3 \<and>
          distinct (allocatedButNotInUseIPs r @ nonCalicoIPs r @ inUseButNotAllocatedIPs r)"
proof -
  let ?ks1 = "[''10.0.0.0'', ''10.0.0.1'', ''10.0.0.5'']"
  let ?ks2 = "[''10.0.0.0'', ''10.0.0.9'', ''192.168.99.9'', ''10.0.0.1'']"
  from C2_total [OF example_load example_order1 example_order2]
  obtain r c' where run: "checkIPAM ipv4_lib snapshot_client ?ks1 ?ks2
             (NewIPAMChecker example_store False True) = (Inr r, c')"
    and lst: "last (stdout c') = CheckComplete (numProblems r)"
    and len: "numProblems r = length (allocatedButNotInUseIPs r) + length (nonCalicoIPs r)
                             + length (inUseButNotAllocatedIPs r)"
    and dis: "distinct (allocatedButNotInUseIPs r @ nonCalicoIPs r @ inUseButNotAllocatedIPs r)"
    by blast
  from run have r: "allocatedButNotInUseIPs r = leaked_of example_loaded ?ks1"
    "nonCalicoIPs r = foreign_of ipv4_lib [(167772160, 24)] example_loaded ?ks2"
    "inUseButNotAllocatedIPs r = missing_of ipv4_lib [(167772160, 24)] example_loaded ?ks2"
    unfolding example_run by auto
  have "numProblems r = 3"
    unfolding len r
    by (simp add: leaked_of_def foreign_of_def missing_of_def example_allocations
          example_inUseIPs in_pool_def ipv4_eval)
  with run lst dis show ?thesis by blast
qed

text \<open>
  C3.  For an allocation of a listed block whose attribute record has the primary tag
  \<open>ipam.WindowsReservedHandle\<close>: \<open>recordAllocation\<close> completes and appends the owner
  "Reserved for Windows" (referring to the block) to the owners of the address in the
  Usage Index; and in every completed check that owner is still in the Usage Index and
  the address is not in the leaked list, whatever the nodes and workloads are.
\<close>

theorem C3_reserved:
  assumes "BackendListBlocks cl ds = (Inr bs, ds1)" and "b \<in> set bs"
    and "index (Allocations b) ord = Some (Some i)" and "index (Attributes b) i = Some attrs"
    and "AttrPrimary attrs = Some (WindowsReservedHandle L)"
  shows "(\<forall>c :: 'ds IPAMChecker. \<exists>c'. recordAllocation L b ord c = (None, c') \<and>
            inUseIPs c' (IP_String L (OrdinalToIP L b ord)) =
              Some (lookup_slice (inUseIPs c) (IP_String L (OrdinalToIP L b ord))
                     @ [\<lparr>FriendlyName = ''Reserved for Windows'', Resource = BlockRef b\<rparr>])) \<and>
         (\<forall>r c'. checkIPAM L cl ks1 ks2 (NewIPAMChecker ds showAll showProblem) = (Inr r, c') \<longrightarrow>
            \<lparr>FriendlyName = ''Reserved for Windows'', Resource = BlockRef b\<rparr>
              \<in> set (lookup_slice (inUseIPs c') (IP_String L (OrdinalToIP L b ord))) \<and>
            IP_String L (OrdinalToIP L b ord) \<notin> set (allocatedButNotInUseIPs r))"
proof (intro conjI allI impI)
  fix c :: "'ds IPAMChecker"
  show "\<exists>c'. recordAllocation L b ord c = (None, c') \<and>
            inUseIPs c' (IP_String L (OrdinalToIP L b ord)) =
              Some (lookup_slice (inUseIPs c) (IP_String L (OrdinalToIP L b ord))
                     @ [\<lparr>FriendlyName = ''Reserved for Windows'', Resource = BlockRef b\<rparr>])"
    by (rule recordAllocation_reserved [OF assms(3,4,5)])
next
  fix r c'
  let ?ip = "IP_String L (OrdinalToIP L b ord)"
  let ?syn = "\<lparr>FriendlyName = ''Reserved for Windows'', Resource = BlockRef b\<rparr>"
  assume run: "checkIPAM L cl ks1 ks2 (NewIPAMChecker ds showAll showProblem) = (Inr r, c')"
  from checkIPAM_Inr [OF run] obtain pools c
    where l: "load L cl (NewIPAMChecker ds showAll showProblem) = (Inr pools, c)"
      and r: "allocatedButNotInUseIPs r = leaked_of c ks1"
      and c': "inUseIPs c' = inUseIPs c"
    by auto
  from assms(1) have "BackendListBlocks cl (datastore (NewIPAMChecker ds showAll showProblem))
                        = (Inr bs, ds1)" by simp
  from load_reserved [OF l this assms(2,3,4,5)]
  have syn: "?syn \<in> set (lookup_slice (inUseIPs c) ?ip)" .
  then have "inUseIPs c ?ip \<noteq> None"
    by (cases "inUseIPs c ?ip") (simp_all add: lookup_slice_def)
  then have "?ip \<notin> set (leaked_of c ks1)" by (simp add: leaked_of_def)
  with syn r c'
  show "?syn \<in> set (lookup_slice (inUseIPs c') ?ip)" "?ip \<notin> set (allocatedButNotInUseIPs r)"
    by simp_all
qed

theorem C3_reserved_witness:
  "\<exists>r c'. checkIPAM ipv4_lib snapshot_client [''10.0.0.0'', ''10.0.0.1'', ''10.0.0.5'']
             [''10.0.0.0'', ''10.0.0.9'', ''192.168.99.9'', ''10.0.0.1'']
             (NewIPAMChecker example_store False True) = (Inr r, c') \<and>
          ''10.0.0.0'' \<in> dom (allocations c') \<and>
          \<lparr>FriendlyName = ''Reserved for Windows'', Resource = BlockRef example_block\<rparr>
             \<in> set (lookup_slice (inUseIPs c') ''10.0.0.0'') \<and>
          ''10.0.0.0'' \<notin> set (allocatedButNotInUseIPs r) \<and>
          length (lookup_slice (inUseIPs c') ''10.0.0.0'') = 1"
proof -
  let ?ks1 = "[''10.0.0.0'', ''10.0.0.1'', ''10.0.0.5'']"
  let ?ks2 = "[''10.0.0.0'', ''10.0.0.9'', ''192.168.99.9'', ''10.0.0.1'']"
  obtain r c' where run: "checkIPAM ipv4_lib snapshot_client ?ks1 ?ks2
             (NewIPAMChecker example_store False True) = (Inr r, c')"
    and c': "allocations c' = allocations example_loaded" "inUseIPs c' = inUseIPs example_loaded"
    unfolding example_run by simp
  have h1: "BackendListBlocks snapshot_client example_store = (Inr [example_block], example_store)"
    by (simp add: snapshot_client_def example_store_def)
  have h2: "example_block \<in> set [example_block]" by simp
  have h3: "index (Allocations example_block) 0 = Some (Some 2)"
    by (simp add: index_def example_block_def)
  have h4: "index (Attributes example_block) 2 =
              Some \<lparr>AttrPrimary = Some ''windows-reserved-ipam-handle'', AttrSecondary = []\<rparr>"
    by (simp add: index_def example_block_def)
  have h5: "AttrPrimary \<lparr>AttrPrimary = Some ''windows-reserved-ipam-handle'', AttrSecondary = []\<rparr>
              = Some (WindowsReservedHandle ipv4_lib)"
    by (simp add: ipv4_lib_def)
  have ip: "IP_String ipv4_lib (OrdinalToIP ipv4_lib example_block 0) = ''10.0.0.0''"
    by (simp add: ipv4_eval example_block_def)
  from C3_reserved [OF h1 h2 h3 h4 h5, of ?ks1 ?ks2 False True] run
  have "\<lparr>FriendlyName = ''Reserved for Windows'', Resource = BlockRef example_block\<rparr>
          \<in> set (lookup_slice (inUseIPs c') ''10.0.0.0'')"
    "''10.0.0.0'' \<notin> set (allocatedButNotInUseIPs r)"
    unfolding ip by blast+
  moreover have "''10.0.0.0'' \<in> dom (allocations c')"
    "length (lookup_slice (inUseIPs c') ''10.0.0.0'') = 1"
    by (simp_all add: c' example_allocations example_inUseIPs lookup_slice_def)
  ultimately show ?thesis using run by blast
qed

text \<open>
  C4.  The active pools of a check are the parsed CIDRs of the listed pools whose disabled
  flag is not set, in the order of the listing.  So after a successful load, an address
  that is in the Usage Index, not in the Allocation Index, and contained in no pool whose
  disabled flag is not set (whatever disabled pools contain it) is in the foreign list
  and not in the missing-allocation list.
\<close>

theorem C4_disabled_pools:
  assumes "load L cl (NewIPAMChecker ds showAll showProblem) = (Inr pools, c)"
    and "BackendListBlocks cl ds = (bl, ds1)" and "IPPoolsList cl ds1 = (Inr ps, ds2)"
    and "range_order (inUseIPs c) ks2"
  shows "map (\<lambda>p. ParseCIDR L (Spec_CIDR p)) (filter (\<lambda>p. \<not> Spec_Disabled p) ps) = map Inr pools \<and>
         (\<exists>r c'. checkIPAM L cl ks1 ks2 (NewIPAMChecker ds showAll showProblem) = (Inr r, c') \<and>
            activeIPPools r = pools \<and>
            (\<forall>ip. ip \<in> dom (inUseIPs c) \<and> ip \<notin> dom (allocations c) \<and>
                   (\<forall>p \<in> set ps. \<not> Spec_Disabled p \<longrightarrow>
                      (\<forall>n. ParseCIDR L (Spec_CIDR p) = Inr n \<longrightarrow> \<not> Contains L n (ParseIP L ip)))
                  \<longrightarrow> ip \<in> set (nonCalicoIPs r) \<and> ip \<notin> set (inUseButNotAllocatedIPs r)))"
proof -
  let ?r = "\<lparr>activeIPPools = pools, allocatedButNotInUseIPs = leaked_of c ks1,
             nonCalicoIPs = foreign_of L pools c ks2,
             inUseButNotAllocatedIPs = missing_of L pools c ks2,
             numProblems = length (leaked_of c ks1) + length (foreign_of L pools c ks2)
                             + length (missing_of L pools c ks2)\<rparr>"
  let ?c' = "c\<lparr>stdout := stdout c @ classify_lines L ks1 ks2 pools c\<rparr>"
  have run: "checkIPAM L cl ks1 ks2 (NewIPAMChecker ds showAll showProblem) = (Inr ?r, ?c')"
    by (rule checkIPAM_closed [OF assms(1) allocs_ok_New])
  from assms(2) have "BackendListBlocks cl (datastore (NewIPAMChecker ds showAll showProblem))
                        = (bl, ds1)" by simp
  note active = load_pools [OF assms(1) this assms(3)]
  have cls: "ip \<in> set (nonCalicoIPs ?r) \<and> ip \<notin> set (inUseButNotAllocatedIPs ?r)"
    if u: "ip \<in> dom (inUseIPs c)" and a: "ip \<notin> dom (allocations c)"
      and out: "\<forall>p \<in> set ps. \<not> Spec_Disabled p \<longrightarrow>
                  (\<forall>n. ParseCIDR L (Spec_CIDR p) = Inr n \<longrightarrow> \<not> Contains L n (ParseIP L ip))"
    for ip
  proof -
    have "\<not> in_pool L pools ip"
      unfolding in_pool_iff using active_pool_enabled [OF active] out by blast
    with u a show ?thesis
      by (simp add: set_foreign_of [OF assms(4)] set_missing_of [OF assms(4)])
  qed
  have "activeIPPools ?r = pools" by simp
  with run cls have "\<exists>r c'. checkIPAM L cl ks1 ks2 (NewIPAMChecker ds showAll showProblem) = (Inr r, c') \<and>
            activeIPPools r = pools \<and>
            (\<forall>ip. ip \<in> dom (inUseIPs c) \<and> ip \<notin> dom (allocations c) \<and>
                   (\<forall>p \<in> set ps. \<not> Spec_Disabled p \<longrightarrow>
                      (\<forall>n. ParseCIDR L (Spec_CIDR p) = Inr n \<longrightarrow> \<not> Contains L n (ParseIP L ip)))
                  \<longrightarrow> ip \<in> set (nonCalicoIPs r) \<and> ip \<notin> set (inUseButNotAllocatedIPs r))"
    by (intro exI [of _ ?r] exI [of _ ?c'] conjI allI impI) blast+
  with active show ?thesis by blast
qed

theorem C4_disabled_pools_witness:
  "Spec_Disabled \<lparr>Spec_CIDR = ''192.168.0.0/16'', Spec_Disabled = True\<rparr> \<and>
   (\<exists>n. ParseCIDR ipv4_lib ''192.168.0.0/16'' = Inr n \<and>
        Contains ipv4_lib n (ParseIP ipv4_lib ''192.168.99.9'')) \<and>
   (\<exists>r c'. checkIPAM ipv4_lib snapshot_client [''10.0.0.0'', ''10.0.0.1'', ''10.0.0.5'']
             [''10.0.0.0'', ''10.0.0.9'', ''192.168.99.9'', ''10.0.0.1'']
             (NewIPAMChecker example_store False True) = (Inr r, c') \<and>
          activeIPPools r = [(167772160, 24)] \<and>
          ''192.168.99.9'' \<in> set (nonCalicoIPs r) \<and>
          ''192.168.99.9'' \<notin> set (inUseButNotAllocatedIPs r))"
proof -
  let ?ks1 = "[''10.0.0.0'', ''10.0.0.1'', ''10.0.0.5'']"
  let ?ks2 = "[''10.0.0.0'', ''10.0.0.9'', ''192.168.99.9'', ''10.0.0.1'']"
  let ?ps = "[\<lparr>Spec_CIDR = ''10.0.0.0/24'', Spec_Disabled = False\<rparr>,
              \<lparr>Spec_CIDR = ''192.168.0.0/16'', Spec_Disabled = True\<rparr>]"
  have h2: "BackendListBlocks snapshot_client example_store = (Inr [example_block], example_store)"
    by (simp add: snapshot_client_def example_store_def)
  have h3: "IPPoolsList snapshot_client example_store = (Inr ?ps, example_store)"
    by (simp add: snapshot_client_def example_store_def)
  from C4_disabled_pools [OF example_load h2 h3 example_order2, of ?ks1]
  obtain r c' where run: "checkIPAM ipv4_lib snapshot_client ?ks1 ?ks2
             (NewIPAMChecker example_store False True) = (Inr r, c')"
    and act: "activeIPPools r = [(167772160, 24)]"
    and cls: "\<And>ip. ip \<in> dom (inUseIPs example_loaded) \<and> ip \<notin> dom (allocations example_loaded) \<and>
                   (\<forall>p \<in> set ?ps. \<not> Spec_Disabled p \<longrightarrow>
                      (\<forall>n. ParseCIDR ipv4_lib (Spec_CIDR p) = Inr n \<longrightarrow>
                           \<not> Contains ipv4_lib n (ParseIP ipv4_lib ip)))
                  \<Longrightarrow> ip \<in> set (nonCalicoIPs r) \<and> ip \<notin> set (inUseButNotAllocatedIPs r)"
    by blast
  have "''192.168.99.9'' \<in> dom (inUseIPs example_loaded) \<and>
        ''192.168.99.9'' \<notin> dom (allocations example_loaded) \<and>
        (\<forall>p \<in> set ?ps. \<not> Spec_Disabled p \<longrightarrow>
           (\<forall>n. ParseCIDR ipv4_lib (Spec_CIDR p) = Inr n \<longrightarrow>
                \<not> Contains ipv4_lib n (ParseIP ipv4_lib ''192.168.99.9'')))"
    by (simp add: example_allocations example_inUseIPs) (simp add: ipv4_eval)
  from cls [OF this] have "''192.168.99.9'' \<in> set (nonCalicoIPs r)"
    "''192.168.99.9'' \<notin> set (inUseButNotAllocatedIPs r)" by simp_all
  moreover have "\<exists>n. ParseCIDR ipv4_lib ''192.168.0.0/16'' = Inr n \<and>
        Contains ipv4_lib n (ParseIP ipv4_lib ''192.168.99.9'')"
    by (simp add: ipv4_eval)
  ultimately show ?thesis using run act by auto
qed

text \<open>
  C5.  Let phases 1 and 2 have completed and the nodes be listed.  If an address field of
  some node that is set (not empty) fails to normalise, the check ends with the error of
  \<open>getNodeIPs\<close> for the first such node, which carries the field, the raw value that
  failed, the node's name and the cause; if all node addresses normalise, the workload
  endpoints are listed and an address of some endpoint fails to normalise, the check
  ends with the error of \<open>getWEPIPs\<close>, which carries the raw value, the endpoint's
  namespace and name and the cause.  In both cases no report is returned and no line of
  the classification or of the summary has been printed.
\<close>

theorem C5_parse_failure:
  assumes "loadBlocks L cl (banner (NewIPAMChecker ds showAll showProblem)) = (None, c1)"
    and "loadPools L cl c1 = (Inr pools, c2)"
    and "NodesList cl (datastore c2) = (Inr ns, ds3)"
  shows "((\<exists>n \<in> set ns. \<exists>fa \<in> set (node_fields n). isl (normaliseIP L (snd fa))) \<longrightarrow>
           (\<exists>n \<in> set ns. \<exists>field raw cause c'.
              (field, raw) \<in> set (node_fields n) \<and> normaliseIP L raw = Inl cause \<and>
              checkIPAM L cl ks1 ks2 (NewIPAMChecker ds showAll showProblem) =
                (Inl (ParseNodeIPFailed field raw (Name n) cause), c') \<and>
              \<not> list_ex (\<lambda>l. problem_line l \<or> summary_line l) (stdout c'))) \<and>
         ((\<forall>n \<in> set ns. \<forall>fa \<in> set (node_fields n). \<not> isl (normaliseIP L (snd fa))) \<longrightarrow>
           (\<forall>ws ds4. WorkloadEndpointsList cl ds3 = (Inr ws, ds4) \<longrightarrow>
              (\<exists>w \<in> set ws. \<exists>a \<in> set (IPNetworks w). isl (normaliseIP L a)) \<longrightarrow>
              (\<exists>w \<in> set ws. \<exists>raw cause c'.
                 raw \<in> set (IPNetworks w) \<and> normaliseIP L raw = Inl cause \<and>
                 checkIPAM L cl ks1 ks2 (NewIPAMChecker ds showAll showProblem) =
                   (Inl (ParseWEPIPFailed raw (Namespace w) (WName w) cause), c') \<and>
                 \<not> list_ex (\<lambda>l. problem_line l \<or> summary_line l) (stdout c'))))"
proof (intro conjI impI allI)
  let ?c0 = "NewIPAMChecker ds showAll showProblem"
  assume "\<exists>n \<in> set ns. \<exists>fa \<in> set (node_fields n). isl (normaliseIP L (snd fa))"
  then have "\<exists>n \<in> set ns. isl (getNodeIPs L n)" by (simp add: getNodeIPs_isl_field)
  from loadNodes_Inl [OF assms(3) this] obtain n e
    where n: "n \<in> set ns" and e: "getNodeIPs L n = Inl e"
      and ln: "fst (loadNodes L cl c2) = Some e" by blast
  from getNodeIPs_Inl_field [OF e] obtain field raw cause
    where e': "e = ParseNodeIPFailed field raw (Name n) cause"
      and fr: "(field, raw) \<in> set (node_fields n)" "normaliseIP L raw = Inl cause" by blast
  obtain c' where ln': "loadNodes L cl c2 = (Some e, c')"
    using ln by (cases "loadNodes L cl c2") simp
  have l: "load L cl ?c0 = (Inl e, c')"
    using assms(1,2) ln' by (simp add: load_def)
  have "\<not> list_ex (\<lambda>l. problem_line l \<or> summary_line l) (stdout c')"
    using load_stdout [OF l] by (rule load_line_no_report)
  with checkIPAM_Inl [OF l, of ks1 ks2] e' fr n
  show "\<exists>n \<in> set ns. \<exists>field raw cause c'.
              (field, raw) \<in> set (node_fields n) \<and> normaliseIP L raw = Inl cause \<and>
              checkIPAM L cl ks1 ks2 ?c0 = (Inl (ParseNodeIPFailed field raw (Name n) cause), c') \<and>
              \<not> list_ex (\<lambda>l. problem_line l \<or> summary_line l) (stdout c')"
    by blast
next
  fix ws ds4
  let ?c0 = "NewIPAMChecker ds showAll showProblem"
  assume nodes_ok: "\<forall>n \<in> set ns. \<forall>fa \<in> set (node_fields n). \<not> isl (normaliseIP L (snd fa))"
    and weps: "WorkloadEndpointsList cl ds3 = (Inr ws, ds4)"
    and bad: "\<exists>w \<in> set ws. \<exists>a \<in> set (IPNetworks w). isl (normaliseIP L a)"
  from nodes_ok have "\<forall>n \<in> set ns. \<not> isl (getNodeIPs L n)" by (simp add: getNodeIPs_isl_field)
  from loadNodes_total [OF assms(3) this] obtain c3
    where ln: "loadNodes L cl c2 = (None, c3)" by blast
  from loadNodes_load(3) [OF ln] assms(3) have "datastore c3 = ds3" by simp
  with weps have weps': "WorkloadEndpointsList cl (datastore c3) = (Inr ws, ds4)" by simp
  from bad have "\<exists>w \<in> set ws. isl (getWEPIPs L w)" by (simp add: getWEPIPs_isl_Bex)
  from loadWEPs_Inl [OF weps' this] obtain w e
    where w: "w \<in> set ws" and e: "getWEPIPs L w = Inl e"
      and lw: "fst (loadWEPs L cl c3) = Some e" by blast
  from getWEPIPs_Inl [OF e] obtain raw cause
    where e': "e = ParseWEPIPFailed raw (Namespace w) (WName w) cause"
      and fr: "raw \<in> set (IPNetworks w)" "normaliseIP L raw = Inl cause" by blast
  obtain c' where lw': "loadWEPs L cl c3 = (Some e, c')"
    using lw by (cases "loadWEPs L cl c3") simp
  have l: "load L cl ?c0 = (Inl e, c')"
    using assms(1,2) ln lw' by (simp add: load_def)
  have "\<not> list_ex (\<lambda>l. problem_line l \<or> summary_line l) (stdout c')"
    using load_stdout [OF l] by (rule load_line_no_report)
  with checkIPAM_Inl [OF l, of ks1 ks2] e' fr w
  show "\<exists>w \<in> set ws. \<exists>raw cause c'.
                 raw \<in> set (IPNetworks w) \<and> normaliseIP L raw = Inl cause \<and>
                 checkIPAM L cl ks1 ks2 ?c0 =
                   (Inl (ParseWEPIPFailed raw (Namespace w) (WName w) cause), c') \<and>
                 \<not> list_ex (\<lambda>l. problem_line l \<or> summary_line l) (stdout c')"
    by blast
qed


theorem C5_parse_failure_witness:
  "fst (checkIPAM ipv4_lib snapshot_client [] [] (NewIPAMChecker bad_node_store False False)) =
     Inl (ParseNodeIPFailed ''Wireguard.InterfaceIPv4Address'' ''10.0.0.300'' ''n2''
            ''invalid CIDR address: 10.0.0.300'') \<and>
   \<not> list_ex (\<lambda>l. problem_line l \<or> summary_line l)
       (stdout (snd (checkIPAM ipv4_lib snapshot_client [] []
                       (NewIPAMChecker bad_node_store False False)))) \<and>
   fst (checkIPAM ipv4_lib snapshot_client [] [] (NewIPAMChecker bad_wep_store False False)) =
     Inl (ParseWEPIPFailed ''not-an-ip'' ''ns'' ''w2'' ''invalid CIDR address: not-an-ip'') \<and>
   \<not> list_ex (\<lambda>l. problem_line l \<or> summary_line l)
       (stdout (snd (checkIPAM ipv4_lib snapshot_client [] []
                       (NewIPAMChecker bad_wep_store False False))))"
proof -
  let ?L = ipv4_lib and ?cl = snapshot_client
  let ?n2 = "\<lparr>Name = ''n2'', IPv4VXLANTunnelAddr = '''', Wireguard = Some ''10.0.0.300'',
              BGP = None\<rparr>"
  let ?w2 = "\<lparr>Namespace = ''ns'', WName = ''w2'', IPNetworks = [''10.0.0.2'', ''not-an-ip'']\<rparr>"
  let ?c0 = "NewIPAMChecker bad_node_store False False"
  let ?c1 = "snd (loadBlocks ?L ?cl (banner ?c0))"
  let ?c2 = "snd (loadPools ?L ?cl ?c1)"
  have a1: "loadBlocks ?L ?cl (banner ?c0) = (None, ?c1)"
    by (simp add: check_eval ipv4_eval bad_node_store_def)
  have a2: "loadPools ?L ?cl ?c1 = (Inr [], ?c2)"
    by (simp add: check_eval ipv4_eval bad_node_store_def)
  have a3: "NodesList ?cl (datastore ?c2) = (Inr [example_node, ?n2], bad_node_store)"
    by (simp add: check_eval ipv4_eval bad_node_store_def)
  have bad: "\<exists>n \<in> set [example_node, ?n2]. \<exists>fa \<in> set (node_fields n).
               isl (normaliseIP ?L (snd fa))"
    by (simp add: node_fields_def normaliseIP_def ipv4_eval)
  from C5_parse_failure [OF a1 a2 a3, of "[]" "[]"] bad
  obtain e c' where "checkIPAM ?L ?cl [] [] ?c0 = (Inl e, c')"
    and "\<not> list_ex (\<lambda>l. problem_line l \<or> summary_line l) (stdout c')" by blast
  then have n: "\<not> list_ex (\<lambda>l. problem_line l \<or> summary_line l)
                  (stdout (snd (checkIPAM ?L ?cl [] [] ?c0)))" by simp
  have ne: "fst (checkIPAM ?L ?cl [] [] ?c0) =
     Inl (ParseNodeIPFailed ''Wireguard.InterfaceIPv4Address'' ''10.0.0.300'' ''n2''
            ''invalid CIDR address: 10.0.0.300'')"
    by (simp add: check_eval ipv4_eval bad_node_store_def example_node_def)
  let ?d0 = "NewIPAMChecker bad_wep_store False False"
  let ?d1 = "snd (loadBlocks ?L ?cl (banner ?d0))"
  let ?d2 = "snd (loadPools ?L ?cl ?d1)"
  have b1: "loadBlocks ?L ?cl (banner ?d0) = (None, ?d1)"
    by (simp add: check_eval ipv4_eval bad_wep_store_def)
  have b2: "loadPools ?L ?cl ?d1 = (Inr [], ?d2)"
    by (simp add: check_eval ipv4_eval bad_wep_store_def)
  have b3: "NodesList ?cl (datastore ?d2) = (Inr [example_node], bad_wep_store)"
    by (simp add: check_eval ipv4_eval bad_wep_store_def)
  have good: "\<forall>n \<in> set [example_node]. \<forall>fa \<in> set (node_fields n).
                \<not> isl (normaliseIP ?L (snd fa))"
    by (simp add: node_fields_def normaliseIP_def ipv4_eval example_node_def)
  have b4: "WorkloadEndpointsList ?cl bad_wep_store = (Inr [?w2], bad_wep_store)"
    by (simp add: snapshot_client_def bad_wep_store_def)
  have badw: "\<exists>w \<in> set [?w2]. \<exists>a \<in> set (IPNetworks w). isl (normaliseIP ?L a)"
    by (simp add: normaliseIP_def ipv4_eval)
  from C5_parse_failure [OF b1 b2 b3, of "[]" "[]"] good b4 badw
  obtain e' d' where "checkIPAM ?L ?cl [] [] ?d0 = (Inl e', d')"
    and "\<not> list_ex (\<lambda>l. problem_line l \<or> summary_line l) (stdout d')" by blast
  then have w: "\<not> list_ex (\<lambda>l. problem_line l \<or> summary_line l)
                  (stdout (snd (checkIPAM ?L ?cl [] [] ?d0)))" by simp
  have we: "fst (checkIPAM ?L ?cl [] [] ?d0) =
     Inl (ParseWEPIPFailed ''not-an-ip'' ''ns'' ''w2'' ''invalid CIDR address: not-an-ip'')"
    by (simp add: check_eval ipv4_eval bad_wep_store_def example_node_def)
  from ne n we w show ?thesis by simp
qed

text \<open>
  C6.  An attribute index that is out of range on the negative side passes the guard
  \<open>len(b.Attributes) > attrIdx\<close> and the indexing that follows panics: for a block whose
  allocation carries the index \<open>-1\<close>, \<open>GetAttrString\<close> panics instead of giving
  \<open><missing>\<close>, \<open>recordAllocation\<close> panics, and the whole check ends in the panic.
\<close>

theorem C6_negative_index_panics:
  "GetAttrString \<lparr>Block = negative_index_block, Ordinal = 0\<rparr> = Inl RuntimePanic \<and>
   fst (recordAllocation ipv4_lib negative_index_block 0
          (NewIPAMChecker () False False)) = Some RuntimePanic \<and>
   fst (checkIPAM ipv4_lib snapshot_client [] []
          (NewIPAMChecker \<lparr>ds_blocks = [negative_index_block], ds_pools = [],
                            ds_nodes = [], ds_weps = []\<rparr> False False)) = Inl RuntimePanic"
  by (simp add: check_eval ipv4_eval negative_index_block_def)

text \<open>
  C7 (as amended).  The attribute string lists the secondary pairs by key in ascending
  byte-wise order, and is the same for any two attribute records with the same primary
  tag and the same secondary mapping, in whatever order the entries are visited.  Two
  runs on the same input, which differ only in the orders in which the two \<open>range\<close>
  loops visit the keys of the maps, end alike when the load fails; when it succeeds both
  complete, with category lists of the same lengths and the same elements, the same
  total, and the same printed lines up to their order; the printed text is identical
  when \<open>showProblemIPs\<close> is off.
\<close>

theorem C7_reproducible:
  "(\<forall>a a'. AttrPrimary a = AttrPrimary a' \<and> map_of (AttrSecondary a) = map_of (AttrSecondary a') \<and>
            distinct (map fst (AttrSecondary a)) \<and> distinct (map fst (AttrSecondary a'))
            \<longrightarrow> formatAttrs a = formatAttrs a') \<and>
   (\<forall>a. \<exists>ks. sorted ks \<and> set ks = fst ` set (AttrSecondary a) \<and>
      formatAttrs a =
        ''Main:'' @ (case AttrPrimary a of None \<Rightarrow> ''<none>'' | Some p \<Rightarrow> p) @ '' Extra:'' @
        Join (map (\<lambda>k. k @ ''='' @
                    (case map_of (AttrSecondary a) k of None \<Rightarrow> [] | Some v \<Rightarrow> v)) ks) '','') \<and>
   (\<forall>e c. load L cl (NewIPAMChecker ds showAll showProblem) = (Inl e, c) \<longrightarrow>
      checkIPAM L cl ks1 ks2 (NewIPAMChecker ds showAll showProblem) = (Inl e, c) \<and>
      checkIPAM L cl ks1' ks2' (NewIPAMChecker ds showAll showProblem) = (Inl e, c)) \<and>
   (\<forall>pools c. load L cl (NewIPAMChecker ds showAll showProblem) = (Inr pools, c) \<and>
      range_order (allocations c) ks1 \<and> range_order (allocations c) ks1' \<and>
      range_order (inUseIPs c) ks2 \<and> range_order (inUseIPs c) ks2' \<longrightarrow>
      (\<exists>r r' c' c''.
         checkIPAM L cl ks1 ks2 (NewIPAMChecker ds showAll showProblem) = (Inr r, c') \<and>
         checkIPAM L cl ks1' ks2' (NewIPAMChecker ds showAll showProblem) = (Inr r', c'') \<and>
         length (allocatedButNotInUseIPs r) = length (allocatedButNotInUseIPs r') \<and>
         length (nonCalicoIPs r) = length (nonCalicoIPs r') \<and>
         length (inUseButNotAllocatedIPs r) = length (inUseButNotAllocatedIPs r') \<and>
         set (allocatedButNotInUseIPs r) = set (allocatedButNotInUseIPs r') \<and>
         set (nonCalicoIPs r) = set (nonCalicoIPs r') \<and>
         set (inUseButNotAllocatedIPs r) = set (inUseButNotAllocatedIPs r') \<and>
         numProblems r = numProblems r' \<and>
         mset (stdout c') = mset (stdout c'') \<and>
         (\<not> showProblem \<longrightarrow> stdout c' = stdout c'')))"
proof (intro conjI allI impI)
  fix a a' :: AllocationAttribute
  assume "AttrPrimary a = AttrPrimary a' \<and> map_of (AttrSecondary a) = map_of (AttrSecondary a') \<and>
            distinct (map fst (AttrSecondary a)) \<and> distinct (map fst (AttrSecondary a'))"
  then show "formatAttrs a = formatAttrs a'" by (intro formatAttrs_map_of) simp_all
next
  fix a :: AllocationAttribute
  show "\<exists>ks. sorted ks \<and> set ks = fst ` set (AttrSecondary a) \<and>
      formatAttrs a =
        ''Main:'' @ (case AttrPrimary a of None \<Rightarrow> ''<none>'' | Some p \<Rightarrow> p) @ '' Extra:'' @
        Join (map (\<lambda>k. k @ ''='' @
                    (case map_of (AttrSecondary a) k of None \<Rightarrow> [] | Some v \<Rightarrow> v)) ks) '',''"
    by (rule formatAttrs_sorted)
next
  fix e c
  assume "load L cl (NewIPAMChecker ds showAll showProblem) = (Inl e, c)"
  then show "checkIPAM L cl ks1 ks2 (NewIPAMChecker ds showAll showProblem) = (Inl e, c)"
    "checkIPAM L cl ks1' ks2' (NewIPAMChecker ds showAll showProblem) = (Inl e, c)"
    by (simp_all add: checkIPAM_Inl)
next
  fix pools c
  let ?c0 = "NewIPAMChecker ds showAll showProblem"
  assume h: "load L cl ?c0 = (Inr pools, c) \<and>
      range_order (allocations c) ks1 \<and> range_order (allocations c) ks1' \<and>
      range_order (inUseIPs c) ks2 \<and> range_order (inUseIPs c) ks2'"
  then have l: "load L cl ?c0 = (Inr pools, c)" by simp
  from h have m1: "mset ks1 = mset ks1'" by (blast intro: range_order_mset)
  from h have m2: "mset ks2 = mset ks2'" by (blast intro: range_order_mset)
  from load_grows [OF l] have sp: "showProblemIPs c = showProblem" by (simp add: grows_def)
  let ?r = "\<lambda>k1 k2. \<lparr>activeIPPools = pools, allocatedButNotInUseIPs = leaked_of c k1,
             nonCalicoIPs = foreign_of L pools c k2,
             inUseButNotAllocatedIPs = missing_of L pools c k2,
             numProblems = length (leaked_of c k1) + length (foreign_of L pools c k2)
                             + length (missing_of L pools c k2)\<rparr>"
  let ?fin = "\<lambda>k1 k2. c\<lparr>stdout := stdout c @ classify_lines L k1 k2 pools c\<rparr>"
  have run: "checkIPAM L cl k1 k2 ?c0 = (Inr (?r k1 k2), ?fin k1 k2)" for k1 k2
    by (rule checkIPAM_closed [OF l allocs_ok_New])
  have m: "mset (leaked_of c ks1) = mset (leaked_of c ks1')"
    "mset (foreign_of L pools c ks2) = mset (foreign_of L pools c ks2')"
    "mset (missing_of L pools c ks2) = mset (missing_of L pools c ks2')"
    by (rule of_mset(1) [OF m1], rule of_mset(2) [OF m2], rule of_mset(3) [OF m2])
  note len = mset_eq_length [OF m(1)] mset_eq_length [OF m(2)] mset_eq_length [OF m(3)]
  note sets = mset_eq_setD [OF m(1)] mset_eq_setD [OF m(2)] mset_eq_setD [OF m(3)]
  have out: "mset (stdout (?fin ks1 ks2)) = mset (stdout (?fin ks1' ks2'))"
    using classify_lines_mset [OF m1 m2, of L pools c] by simp
  have quiet: "\<not> showProblem \<longrightarrow> stdout (?fin ks1 ks2) = stdout (?fin ks1' ks2')"
    using classify_lines_quiet [OF m1 m2, of c L pools] sp by simp
  show "\<exists>r r' c' c''.
         checkIPAM L cl ks1 ks2 ?c0 = (Inr r, c') \<and>
         checkIPAM L cl ks1' ks2' ?c0 = (Inr r', c'') \<and>
         length (allocatedButNotInUseIPs r) = length (allocatedButNotInUseIPs r') \<and>
         length (nonCalicoIPs r) = length (nonCalicoIPs r') \<and>
         length (inUseButNotAllocatedIPs r) = length (inUseButNotAllocatedIPs r') \<and>
         set (allocatedButNotInUseIPs r) = set (allocatedButNotInUseIPs r') \<and>
         set (nonCalicoIPs r) = set (nonCalicoIPs r') \<and>
         set (inUseButNotAllocatedIPs r) = set (inUseButNotAllocatedIPs r') \<and>
         numProblems r = numProblems r' \<and>
         mset (stdout c') = mset (stdout c'') \<and>
         (\<not> showProblem \<longrightarrow> stdout c' = stdout c'')"
    using run [of ks1 ks2] run [of ks1' ks2'] len sets out quiet
    by (intro exI [of _ "?r ks1 ks2"] exI [of _ "?r ks1' ks2'"] exI [of _ "?fin ks1 ks2"]
          exI [of _ "?fin ks1' ks2'"] conjI) simp_all
qed


theorem C7_reproducible_witness:
  "formatAttrs \<lparr>AttrPrimary = Some ''k8s-pod-network.a'',
                 AttrSecondary = [(''pod'', ''a''), (''namespace'', ''ns'')]\<rparr> =
   formatAttrs \<lparr>AttrPrimary = Some ''k8s-pod-network.a'',
                 AttrSecondary = [(''namespace'', ''ns''), (''pod'', ''a'')]\<rparr> \<and>
   formatAttrs \<lparr>AttrPrimary = Some ''k8s-pod-network.a'',
                 AttrSecondary = [(''pod'', ''a''), (''namespace'', ''ns'')]\<rparr> =
     ''Main:k8s-pod-network.a Extra:namespace=ns,pod=a'' \<and>
   (\<exists>r r' c' c''.
      checkIPAM ipv4_lib snapshot_client [''10.0.0.0'', ''10.0.0.1'', ''10.0.0.5'']
        [''10.0.0.0'', ''10.0.0.9'', ''192.168.99.9'', ''10.0.0.1'']
        (NewIPAMChecker example_store False True) = (Inr r, c') \<and>
      checkIPAM ipv4_lib snapshot_client [''10.0.0.5'', ''10.0.0.1'', ''10.0.0.0'']
        [''10.0.0.0'', ''192.168.99.9'', ''10.0.0.9'', ''10.0.0.1'']
        (NewIPAMChecker example_store False True) = (Inr r', c'') \<and>
      numProblems r = numProblems r' \<and>
      set (nonCalicoIPs r) = set (nonCalicoIPs r') \<and>
      mset (stdout c') = mset (stdout c''))"
proof -
  let ?a = "\<lparr>AttrPrimary = Some ''k8s-pod-network.a'',
              AttrSecondary = [(''pod'', ''a''), (''namespace'', ''ns'')]\<rparr>"
  let ?a' = "\<lparr>AttrPrimary = Some ''k8s-pod-network.a'',
               AttrSecondary = [(''namespace'', ''ns''), (''pod'', ''a'')]\<rparr>"
  let ?ks1 = "[''10.0.0.0'', ''10.0.0.1'', ''10.0.0.5'']"
  let ?ks1' = "[''10.0.0.5'', ''10.0.0.1'', ''10.0.0.0'']"
  let ?ks2 = "[''10.0.0.0'', ''10.0.0.9'', ''192.168.99.9'', ''10.0.0.1'']"
  let ?ks2' = "[''10.0.0.0'', ''192.168.99.9'', ''10.0.0.9'', ''10.0.0.1'']"
  note inst = C7_reproducible [of ipv4_lib snapshot_client example_store False True
      ?ks1 ?ks2 ?ks1' ?ks2']
  note attrs = inst [THEN conjunct1, rule_format, of ?a ?a']
  note runs = inst [THEN conjunct2, THEN conjunct2, THEN conjunct2, rule_format,
      of "[(167772160, 24)]" example_loaded]
  have "AttrPrimary ?a = AttrPrimary ?a' \<and> map_of (AttrSecondary ?a) = map_of (AttrSecondary ?a') \<and>
        distinct (map fst (AttrSecondary ?a)) \<and> distinct (map fst (AttrSecondary ?a'))"
    by (auto simp: fun_eq_iff)
  from attrs [OF this] have 1: "formatAttrs ?a = formatAttrs ?a'" .
  have 2: "formatAttrs ?a = ''Main:k8s-pod-network.a Extra:namespace=ns,pod=a''"
    by (simp add: formatAttrs_def)
  have o1': "range_order (allocations example_loaded) ?ks1'"
    by (auto simp: range_order_def example_allocations)
  have o2': "range_order (inUseIPs example_loaded) ?ks2'"
    by (auto simp: range_order_def example_inUseIPs)
  have "load ipv4_lib snapshot_client (NewIPAMChecker example_store False True) =
          (Inr [(167772160, 24)], example_loaded) \<and>
        range_order (allocations example_loaded) ?ks1 \<and>
        range_order (allocations example_loaded) ?ks1' \<and>
        range_order (inUseIPs example_loaded) ?ks2 \<and>
        range_order (inUseIPs example_loaded) ?ks2'"
    using example_load example_order1 o1' example_order2 o2' by (intro conjI)
  from runs [OF this] obtain r r' c' c''
    where "checkIPAM ipv4_lib snapshot_client ?ks1 ?ks2
             (NewIPAMChecker example_store False True) = (Inr r, c')"
      "checkIPAM ipv4_lib snapshot_client ?ks1' ?ks2'
             (NewIPAMChecker example_store False True) = (Inr r', c'')"
      "numProblems r = numProblems r'" "set (nonCalicoIPs r) = set (nonCalicoIPs r')"
      "mset (stdout c') = mset (stdout c'')"
    by (elim exE conjE)
  then have 3: "\<exists>r r' c' c''.
      checkIPAM ipv4_lib snapshot_client ?ks1 ?ks2 (NewIPAMChecker example_store False True)
        = (Inr r, c') \<and>
      checkIPAM ipv4_lib snapshot_client ?ks1' ?ks2' (NewIPAMChecker example_store False True)
        = (Inr r', c'') \<and>
      numProblems r = numProblems r' \<and>
      set (nonCalicoIPs r) = set (nonCalicoIPs r') \<and>
      mset (stdout c') = mset (stdout c'')"
    by (intro exI conjI)
  from 1 2 3 show ?thesis by simp
qed

text \<open>The same input and two orders of the keys of the Usage Index, both possible:
  the lines of the two problem addresses are printed in different orders, so the output
  of the two runs differs.\<close>

theorem C7_counterexample:
  "range_order (allocations example_loaded) [''10.0.0.0'', ''10.0.0.1'', ''10.0.0.5''] \<and>
   range_order (inUseIPs example_loaded)
     [''10.0.0.0'', ''10.0.0.9'', ''192.168.99.9'', ''10.0.0.1''] \<and>
   range_order (inUseIPs example_loaded)
     [''10.0.0.0'', ''192.168.99.9'', ''10.0.0.9'', ''10.0.0.1''] \<and>
   map render (stdout (snd (checkIPAM ipv4_lib snapshot_client
     [''10.0.0.0'', ''10.0.0.1'', ''10.0.0.5'']
     [''10.0.0.0'', ''10.0.0.9'', ''192.168.99.9'', ''10.0.0.1'']
     (NewIPAMChecker example_store False True)))) \<noteq>
   map render (stdout (snd (checkIPAM ipv4_lib snapshot_client
     [''10.0.0.0'', ''10.0.0.1'', ''10.0.0.5'']
     [''10.0.0.0'', ''192.168.99.9'', ''10.0.0.9'', ''10.0.0.1'']
     (NewIPAMChecker example_store False True))))"
proof -
  have o2': "range_order (inUseIPs example_loaded)
     [''10.0.0.0'', ''192.168.99.9'', ''10.0.0.9'', ''10.0.0.1'']"
    by (auto simp: range_order_def example_inUseIPs)
  have "map render (classify_lines ipv4_lib [''10.0.0.0'', ''10.0.0.1'', ''10.0.0.5'']
          [''10.0.0.0'', ''10.0.0.9'', ''192.168.99.9'', ''10.0.0.1''] [(167772160, 24)]
          example_loaded) \<noteq>
        map render (classify_lines ipv4_lib [''10.0.0.0'', ''10.0.0.1'', ''10.0.0.5'']
          [''10.0.0.0'', ''192.168.99.9'', ''10.0.0.9'', ''10.0.0.1''] [(167772160, 24)]
          example_loaded)"
    by (simp add: classify_lines_def in_use_lines_def leaked_lines_def leaked_of_def
          foreign_of_def missing_of_def example_allocations example_inUseIPs example_flags
          lookup_slice_def in_pool_def ipv4_eval)
  then show ?thesis
    unfolding example_run using example_order1 example_order2 o2' by simp
qed

text \<open>
  C8.  The check reaches the datastore only through the four listing calls.  When these
  leave the datastore as it is (\<open>read_only\<close>: they are reads), the datastore after the
  check is the datastore before it, whether the check completes, returns an error or
  panics.
\<close>

theorem C8_read_only:
  assumes "read_only cl"
  shows "datastore (snd (checkIPAM L cl ks1 ks2 c)) = datastore c"
proof -
  obtain r1 c1 where l: "load L cl c = (r1, c1)" by (cases "load L cl c")
  from load_datastore [OF assms l] have d1: "datastore c1 = datastore c" .
  show ?thesis
  proof (cases r1)
    case (Inl e)
    with l d1 show ?thesis by (simp add: checkIPAM_def)
  next
    case (Inr pools)
    obtain r2 c2 where k: "classify L ks1 ks2 pools c1 = (r2, c2)"
      by (cases "classify L ks1 ks2 pools c1")
    from classify_datastore [OF k] d1 l Inr k show ?thesis by (simp add: checkIPAM_def)
  qed
qed

theorem C8_read_only_witness:
  "read_only snapshot_client \<and>
   datastore (snd (checkIPAM ipv4_lib snapshot_client [''10.0.0.0'', ''10.0.0.1'', ''10.0.0.5'']
                     [''10.0.0.0'', ''10.0.0.9'', ''192.168.99.9'', ''10.0.0.1'']
                     (NewIPAMChecker example_store False True))) = example_store \<and>
   datastore (snd (checkIPAM ipv4_lib snapshot_client [] []
                     (NewIPAMChecker bad_node_store False False))) = bad_node_store"
  using C8_read_only [OF read_only_snapshot_client, of ipv4_lib "[''10.0.0.0'', ''10.0.0.1'', ''10.0.0.5'']"
      "[''10.0.0.0'', ''10.0.0.9'', ''192.168.99.9'', ''10.0.0.1'']"
      "NewIPAMChecker example_store False True"]
    C8_read_only [OF read_only_snapshot_client, of ipv4_lib "[]" "[]"
      "NewIPAMChecker bad_node_store False False"]
    read_only_snapshot_client
  by simp

text \<open>
  C9 (as amended).  The lines "allocated" and "belongs to" are printed only when
  \<open>--show-all-ips\<close> is given; the lines "leaked", "has multiple owners", "is not in any
  active IP pool" and "has no IPAM allocation" are printed only when \<open>--show-problem-ips\<close>
  or \<open>--show-all-ips\<close> is given.
\<close>

theorem C9_gating:
  assumes "Check L cl ks1 ks2 ds show_all_ips show_problem_ips = (r, c')"
  shows "(list_ex all_ip_line (stdout c') \<longrightarrow> show_all_ips) \<and>
         (list_ex problem_line (stdout c') \<longrightarrow> show_all_ips \<or> show_problem_ips)"
proof -
  from assms have "checkIPAM L cl ks1 ks2
      (NewIPAMChecker ds show_all_ips (show_all_ips \<or> show_problem_ips)) = (r, c')"
    by (simp add: Check_def Let_def)
  from checkIPAM_New_stdout [OF this] obtain out1 out2
    where "stdout c' = out1 @ out2" "list_all (load_line show_all_ips) out1"
      "list_all (classify_line (show_all_ips \<or> show_problem_ips)) out2" by blast
  then show ?thesis
    by (auto simp: list_all_iff list_ex_iff load_line_def classify_line_def)
qed

theorem C9_gating_witness:
  "\<not> list_ex all_ip_line
       (stdout (snd (Check ipv4_lib snapshot_client [''10.0.0.0'', ''10.0.0.1'', ''10.0.0.5'']
                       [''10.0.0.0'', ''10.0.0.9'', ''192.168.99.9'', ''10.0.0.1'']
                       example_store False True))) \<and>
   \<not> list_ex problem_line
       (stdout (snd (Check ipv4_lib snapshot_client [''10.0.0.0'', ''10.0.0.1'', ''10.0.0.5'']
                       [''10.0.0.0'', ''10.0.0.9'', ''192.168.99.9'', ''10.0.0.1'']
                       example_store False False))) \<and>
   list_ex problem_line
       (stdout (snd (Check ipv4_lib snapshot_client [''10.0.0.0'', ''10.0.0.1'', ''10.0.0.5'']
                       [''10.0.0.0'', ''10.0.0.9'', ''192.168.99.9'', ''10.0.0.1'']
                       example_store False True)))"
proof -
  let ?ks1 = "[''10.0.0.0'', ''10.0.0.1'', ''10.0.0.5'']"
  let ?ks2 = "[''10.0.0.0'', ''10.0.0.9'', ''192.168.99.9'', ''10.0.0.1'']"
  let ?run = "\<lambda>a p. Check ipv4_lib snapshot_client ?ks1 ?ks2 example_store a p"
  have "?run False True = (fst (?run False True), snd (?run False True))" by simp
  from C9_gating [OF this] have 1: "\<not> list_ex all_ip_line (stdout (snd (?run False True)))"
    by simp
  have "?run False False = (fst (?run False False), snd (?run False False))" by simp
  from C9_gating [OF this] have 2: "\<not> list_ex problem_line (stdout (snd (?run False False)))"
    by simp
  have eq: "?run False True = checkIPAM ipv4_lib snapshot_client ?ks1 ?ks2
                            (NewIPAMChecker example_store False True)"
    by (simp add: Check_def)
  have 3: "list_ex problem_line (stdout (snd (?run False True)))"
    unfolding eq example_run
    by (simp add: classify_lines_def leaked_of_def leaked_lines_def example_allocations
          example_inUseIPs example_flags lookup_slice_def)
  from 1 2 3 show ?thesis by simp
qed

text \<open>With \<open>--show-all-ips\<close> alone the lines of the problem addresses are printed: the
  second flag does not control them independently of the first.\<close>

theorem C9_counterexample:
  "LeakedLine ''10.0.0.5'' ''Main:<none> Extra:''
     \<in> set (stdout (snd (Check ipv4_lib snapshot_client [''10.0.0.0'', ''10.0.0.1'', ''10.0.0.5'']
                           [''10.0.0.0'', ''10.0.0.9'', ''192.168.99.9'', ''10.0.0.1'']
                           example_store True False))) \<and>
   problem_line (LeakedLine ''10.0.0.5'' ''Main:<none> Extra:'')"
  by (simp add: check_eval ipv4_eval example_eval)

text \<open>
  C10 (as amended).  When the four listing calls succeed, the CIDR of every pool that is
  not disabled parses, no allocation carries a negative attribute index, and every node
  and workload address normalises, \<open>checkIPAM\<close> returns \<open>nil\<close>: it completes with a report
  whose total it prints in its last line, however large that total is.
\<close>

theorem C10_returns_nil:
  assumes "BackendListBlocks cl ds = (Inr bs, ds1)"
    and "IPPoolsList cl ds1 = (Inr ps, ds2)"
    and "NodesList cl ds2 = (Inr ns, ds3)"
    and "WorkloadEndpointsList cl ds3 = (Inr ws, ds4)"
    and "\<forall>b \<in> set bs. block_indices_ok b"
    and "\<forall>p \<in> set ps. \<not> Spec_Disabled p \<longrightarrow> \<not> isl (ParseCIDR L (Spec_CIDR p))"
    and "\<forall>n \<in> set ns. \<forall>fa \<in> set (node_fields n). \<not> isl (normaliseIP L (snd fa))"
    and "\<forall>w \<in> set ws. \<forall>a \<in> set (IPNetworks w). \<not> isl (normaliseIP L a)"
  shows "\<exists>r c'. checkIPAM L cl ks1 ks2 (NewIPAMChecker ds showAll showProblem) = (Inr r, c') \<and>
           last (stdout c') = CheckComplete (numProblems r)"
proof -
  let ?c0 = "NewIPAMChecker ds showAll showProblem"
  from assms(1) have "BackendListBlocks cl (datastore ?c0) = (Inr bs, ds1)" by simp
  from load_total [OF this assms(2-8)] obtain pools c
    where l: "load L cl ?c0 = (Inr pools, c)" by blast
  show ?thesis
    unfolding checkIPAM_closed [OF l allocs_ok_New]
    by (intro exI conjI; (rule refl)?) (simp add: last_classify_lines)
qed

theorem C10_returns_nil_witness:
  "\<exists>r c'. checkIPAM ipv4_lib snapshot_client [''10.0.0.0'', ''10.0.0.1'', ''10.0.0.5'']
             [''10.0.0.0'', ''10.0.0.9'', ''192.168.99.9'', ''10.0.0.1'']
             (NewIPAMChecker example_store False True) = (Inr r, c') \<and>
          last (stdout c') = CheckComplete (numProblems r) \<and> numProblems r = 3"
proof -
  let ?ks1 = "[''10.0.0.0'', ''10.0.0.1'', ''10.0.0.5'']"
  let ?ks2 = "[''10.0.0.0'', ''10.0.0.9'', ''192.168.99.9'', ''10.0.0.1'']"
  let ?ps = "[\<lparr>Spec_CIDR = ''10.0.0.0/24'', Spec_Disabled = False\<rparr>,
              \<lparr>Spec_CIDR = ''192.168.0.0/16'', Spec_Disabled = True\<rparr>]"
  have h1: "BackendListBlocks snapshot_client example_store = (Inr [example_block], example_store)"
    and h2: "IPPoolsList snapshot_client example_store = (Inr ?ps, example_store)"
    and h3: "NodesList snapshot_client example_store = (Inr [example_node], example_store)"
    and h4: "WorkloadEndpointsList snapshot_client example_store = (Inr [example_wep], example_store)"
    by (simp_all add: snapshot_client_def example_store_def)
  have h5: "\<forall>b \<in> set [example_block]. block_indices_ok b"
    by (simp add: block_indices_ok_def example_block_def)
  have h6: "\<forall>p \<in> set ?ps. \<not> Spec_Disabled p \<longrightarrow> \<not> isl (ParseCIDR ipv4_lib (Spec_CIDR p))"
    by (simp add: ipv4_eval)
  have h7: "\<forall>n \<in> set [example_node]. \<forall>fa \<in> set (node_fields n).
              \<not> isl (normaliseIP ipv4_lib (snd fa))"
    by (simp add: node_fields_def normaliseIP_def ipv4_eval example_node_def)
  have h8: "\<forall>w \<in> set [example_wep]. \<forall>a \<in> set (IPNetworks w). \<not> isl (normaliseIP ipv4_lib a)"
    by (simp add: normaliseIP_def ipv4_eval example_wep_def)
  from C10_returns_nil [OF h1 h2 h3 h4 h5 h6 h7 h8, of ?ks1 ?ks2 False True]
  obtain r c' where run: "checkIPAM ipv4_lib snapshot_client ?ks1 ?ks2
             (NewIPAMChecker example_store False True) = (Inr r, c')"
    and lst: "last (stdout c') = CheckComplete (numProblems r)" by blast
  from run have "numProblems r = 3"
    unfolding example_run
    by (auto simp: leaked_of_def foreign_of_def missing_of_def example_allocations
          example_inUseIPs in_pool_def ipv4_eval)
  with run lst show ?thesis by blast
qed

text \<open>All four listings succeed and there is no node or workload address at all, yet
  the check returns an error: the CIDR of an enabled pool does not parse.\<close>

theorem C10_counterexample:
  "\<not> isl (fst (BackendListBlocks snapshot_client bad_pool_store)) \<and>
   \<not> isl (fst (IPPoolsList snapshot_client bad_pool_store)) \<and>
   \<not> isl (fst (NodesList snapshot_client bad_pool_store)) \<and>
   \<not> isl (fst (WorkloadEndpointsList snapshot_client bad_pool_store)) \<and>
   ds_nodes bad_pool_store = [] \<and> ds_weps bad_pool_store = [] \<and>
   fst (checkIPAM ipv4_lib snapshot_client [] [] (NewIPAMChecker bad_pool_store False False)) =
     Inl (ParsePoolCIDRFailed ''invalid CIDR address: 10.0.0.0/33'')"
  by (simp add: check_eval ipv4_eval bad_pool_store_def)

end
